theory Spec2Isabelle
  imports Main "HOL-Library.Word"
begin

text \<open>
  A shallow embedding of the page-object layer of the test suite: the action wrapper
  \<^verbatim>\<open>CommonActions\<close>, the page objects \<^verbatim>\<open>LoginPage\<close>, \<^verbatim>\<open>SecurePage\<close> and
  \<^verbatim>\<open>CheckboxesPage\<close>, and the factory \<^verbatim>\<open>PomManager\<close>.
\<close>

datatype Page = Page nat

section \<open>The browser page and the automation library\<close>

text \<open>
  The repository drives a browser through the Playwright library, which is not part of it.
  The code under verification only forwards to that library, so the library is modelled
  here as far as the code uses it: a page is a list of elements in document order, a
  locator is re-resolved against the page each time it is used, and every library call is
  recorded, with its arguments, in the order in which it is made.

  The page is static: no script and no timer changes it while a call waits. A condition
  that does not hold when a call starts therefore never comes to hold, and the library
  reports this as a \<open>TimeoutError\<close> once the timeout has passed. Timeouts are
  milliseconds; they are data handed to the library and recorded, not clock readings.
  A call without a timeout falls under the library's configured default (8000 in
  \<^verbatim>\<open>playwright.config\<close>), and a wait that the library does not limit is ended by the
  limit of the test runner; the model reports every wait in vain as \<open>TimeoutError\<close>.
\<close>

subsection \<open>Elements\<close>

text \<open>
  A JavaScript string is a sequence of 16-bit code units. The text of the page and the
  text typed into it are such strings; \<open>js\<close> writes one whose code units are below 256.
  Selectors are written by the page objects in ASCII and stay character strings.
  The text content of an element is what the library reports for it: a string (the empty
  one for an element without text), or \<^verbatim>\<open>null\<close>, which the library's type allows
  and which is \<open>None\<close> here.
\<close>

type_synonym code_unit = "16 word"

type_synonym js_string = "code_unit list"

definition js :: "string \<Rightarrow> js_string" where
  "js s = map of_char s"

record element =
  tag :: string
  ident :: string
  type_attr :: string
  parent :: "nat option"
  visible :: bool
  enabled :: bool
  checked :: bool
  input_value :: js_string
  text_content :: "js_string option"

type_synonym document = "element list"

subsection \<open>Selectors\<close>

text \<open>
  Selectors are strings, as in the source. The model reads the forms that the page
  objects use: \<^verbatim>\<open>#id\<close>, \<^verbatim>\<open>tag[type="v"]\<close> and \<^verbatim>\<open>tag[type="v"]:nth-of-type(n)\<close>.
\<close>

datatype css = ById string | ByTagType string string "int option"

fun strip_prefix :: "string \<Rightarrow> string \<Rightarrow> string option" where
  "strip_prefix [] s = Some s"
| "strip_prefix (c # cs) [] = None"
| "strip_prefix (c # cs) (d # ds) = (if c = d then strip_prefix cs ds else None)"

definition is_digit :: "char \<Rightarrow> bool" where
  "is_digit c = (48 \<le> (of_char c :: nat) \<and> (of_char c :: nat) \<le> 57)"

fun parse_digits :: "nat \<Rightarrow> string \<Rightarrow> nat option" where
  "parse_digits acc [] = Some acc"
| "parse_digits acc (c # cs) =
     (if is_digit c then parse_digits (10 * acc + (of_char c - 48)) cs else None)"

definition parse_int :: "string \<Rightarrow> int option" where
  "parse_int s =
     (case s of
        [] \<Rightarrow> None
      | c # cs \<Rightarrow>
          if c = CHR ''-''
          then (case cs of [] \<Rightarrow> None | _ \<Rightarrow> map_option (\<lambda>n. - int n) (parse_digits 0 cs))
          else map_option int (parse_digits 0 s))"

definition parse_nth :: "string \<Rightarrow> int option" where
  "parse_nth s =
     (case strip_prefix '':nth-of-type('' s of
        None \<Rightarrow> None
      | Some r \<Rightarrow>
          (case rev r of
             [] \<Rightarrow> None
           | c # cs \<Rightarrow> if c = CHR '')'' then parse_int (rev cs) else None))"

definition parse_selector :: "string \<Rightarrow> css option" where
  \<open>parse_selector s =
     (case s of
        [] \<Rightarrow> None
      | c # rest \<Rightarrow>
          if c = CHR ''#'' then (if rest = [] then None else Some (ById rest))
          else
            (case strip_prefix ''[type="'' (dropWhile (\<lambda>x. x \<noteq> CHR ''['') s) of
               None \<Rightarrow> None
             | Some r1 \<Rightarrow>
                 (case strip_prefix ''"]'' (dropWhile (\<lambda>x. x \<noteq> CHR 0x22) r1) of
                    None \<Rightarrow> None
                  | Some r2 \<Rightarrow>
                      if r2 = []
                      then Some (ByTagType (takeWhile (\<lambda>x. x \<noteq> CHR ''['') s)
                                   (takeWhile (\<lambda>x. x \<noteq> CHR 0x22) r1) None)
                      else
                        (case parse_nth r2 of
                           None \<Rightarrow> None
                         | Some n \<Rightarrow>
                             Some (ByTagType (takeWhile (\<lambda>x. x \<noteq> CHR ''['') s)
                                     (takeWhile (\<lambda>x. x \<noteq> CHR 0x22) r1) (Some n))))))\<close>

text \<open>
  \<^verbatim>\<open>:nth-of-type(n)\<close> counts an element among the siblings of its own tag name: the
  elements with the same parent and the same tag that precede it in the document.
\<close>

definition nth_of_type :: "document \<Rightarrow> nat \<Rightarrow> nat" where
  "nth_of_type d i =
     Suc (length (filter (\<lambda>j. parent (d ! j) = parent (d ! i) \<and> tag (d ! j) = tag (d ! i)) [0..<i]))"

fun matches :: "document \<Rightarrow> css \<Rightarrow> nat \<Rightarrow> bool" where
  "matches d (ById x) i = (ident (d ! i) = x)"
| "matches d (ByTagType t v n) i =
     (tag (d ! i) = t \<and> type_attr (d ! i) = v \<and>
      (case n of None \<Rightarrow> True | Some k \<Rightarrow> int (nth_of_type d i) = k))"

text \<open>
  \<open>inside d n roots i\<close>: element \<open>i\<close> has a proper ancestor among \<open>roots\<close>, following at
  most \<open>n\<close> parent links (the length of the document is enough).
\<close>

fun inside :: "document \<Rightarrow> nat \<Rightarrow> nat list \<Rightarrow> nat \<Rightarrow> bool" where
  "inside d 0 roots i = False"
| "inside d (Suc n) roots i =
     (if i < length d
      then (case parent (d ! i) of
              None \<Rightarrow> False
            | Some j \<Rightarrow> j \<in> set roots \<or> inside d n roots j)
      else False)"

subsection \<open>Locators\<close>

text \<open>
  \<open>PageLocator s\<close> is \<^verbatim>\<open>page.locator(s)\<close>, \<open>SubLocator l s\<close> is \<^verbatim>\<open>l.locator(s)\<close>
  (the elements matching \<open>s\<close> below an element of \<open>l\<close>), and \<open>Nth l k\<close> is \<^verbatim>\<open>l.nth(k)\<close>,
  which is what \<^verbatim>\<open>l.all()\<close> returns for each match. A locator resolves to the positions
  of its elements in document order, or to \<open>None\<close> for a selector outside the forms above.
\<close>

datatype locator = PageLocator string | SubLocator locator string | Nth locator nat

fun resolve :: "document \<Rightarrow> locator \<Rightarrow> nat list option" where
  "resolve d (PageLocator s) =
     (case parse_selector s of
        None \<Rightarrow> None
      | Some c \<Rightarrow> Some (filter (matches d c) [0..<length d]))"
| "resolve d (SubLocator l s) =
     (case resolve d l of
        None \<Rightarrow> None
      | Some roots \<Rightarrow>
          (case parse_selector s of
             None \<Rightarrow> None
           | Some c \<Rightarrow>
               Some (filter (\<lambda>i. matches d c i \<and> inside d (length d) roots i) [0..<length d])))"
| "resolve d (Nth l k) =
     (case resolve d l of
        None \<Rightarrow> None
      | Some hs \<Rightarrow> Some (if k < length hs then [hs ! k] else []))"

declare resolve.simps [simp del]

subsection \<open>Library calls, errors and sequencing\<close>

datatype wait_state = Attached | Detached | Visible | Hidden

datatype prim_call =
    WaitFor locator wait_state "nat option"
  | Click locator bool "nat option"
  | Fill locator js_string "nat option"
  | Check locator "nat option"
  | Uncheck locator "nat option"
  | IsChecked locator
  | TextContent locator "nat option"
  | All locator

datatype error = TimeoutError | StrictModeViolation | ActionError | AssertionError | SelectorError

record browser =
  dom :: document
  calls :: "prim_call list"

text \<open>
  An asynchronous operation takes the browser and returns its result, or the error it
  throws, with the browser as it has become. \<open>await m f\<close> is \<^verbatim>\<open>x = await m; f(x)\<close>: an
  error of \<open>m\<close> ends the sequence and is the error of the whole, as an uncaught rejection
  is; nothing in the source catches one.
\<close>

type_synonym 'a action = "browser \<Rightarrow> (error + 'a) \<times> browser"

definition ret :: "'a \<Rightarrow> 'a action" where
  "ret x b = (Inr x, b)"

definition throw :: "error \<Rightarrow> 'a action" where
  "throw e b = (Inl e, b)"

definition await :: "'a action \<Rightarrow> ('a \<Rightarrow> 'b action) \<Rightarrow> 'b action" where
  "await m f b = (case m b of (Inl e, b') \<Rightarrow> (Inl e, b') | (Inr x, b') \<Rightarrow> f x b')"

definition invoke :: "prim_call \<Rightarrow> unit action" where
  "invoke c b = (Inr (), b\<lparr>calls := calls b @ [c]\<rparr>)"

text \<open>
  An action on a locator needs exactly one element: with none it waits in vain, with
  several it is refused (the library's strict mode).
\<close>

definition the_element :: "locator \<Rightarrow> nat action" where
  "the_element l b =
     (case resolve (dom b) l of
        None \<Rightarrow> (Inl SelectorError, b)
      | Some [] \<Rightarrow> (Inl TimeoutError, b)
      | Some [h] \<Rightarrow> (Inr h, b)
      | Some (h # h' # hs) \<Rightarrow> (Inl StrictModeViolation, b))"

definition set_checked :: "nat \<Rightarrow> bool \<Rightarrow> unit action" where
  "set_checked h v b = (Inr (), b\<lparr>dom := (dom b)[h := (dom b ! h)\<lparr>checked := v\<rparr>]\<rparr>)"

definition set_value :: "nat \<Rightarrow> js_string \<Rightarrow> unit action" where
  "set_value h v b = (Inr (), b\<lparr>dom := (dom b)[h := (dom b ! h)\<lparr>input_value := v\<rparr>]\<rparr>)"

definition actionable :: "element \<Rightarrow> bool" where
  "actionable e = (visible e \<and> enabled e)"

definition checkable :: "element \<Rightarrow> bool" where
  "checkable e =
     (tag e = ''input'' \<and> (type_attr e = ''checkbox'' \<or> type_attr e = ''radio''))"

definition fillable :: "element \<Rightarrow> bool" where
  "fillable e =
     (tag e = ''textarea'' \<or>
      (tag e = ''input'' \<and> type_attr e \<noteq> ''checkbox'' \<and> type_attr e \<noteq> ''radio''))"

definition wait_holds :: "wait_state \<Rightarrow> element option \<Rightarrow> bool" where
  "wait_holds st e =
     (case st of
        Attached \<Rightarrow> e \<noteq> None
      | Detached \<Rightarrow> e = None
      | Visible \<Rightarrow> (case e of None \<Rightarrow> False | Some x \<Rightarrow> visible x)
      | Hidden \<Rightarrow> (case e of None \<Rightarrow> True | Some x \<Rightarrow> \<not> visible x))"

definition locator_waitFor :: "locator \<Rightarrow> wait_state \<Rightarrow> nat option \<Rightarrow> unit action" where
  "locator_waitFor l st t =
     await (invoke (WaitFor l st t)) (\<lambda>_ b.
       case resolve (dom b) l of
         None \<Rightarrow> (Inl SelectorError, b)
       | Some [] \<Rightarrow> (if wait_holds st None then Inr () else Inl TimeoutError, b)
       | Some [h] \<Rightarrow> (if wait_holds st (Some (dom b ! h)) then Inr () else Inl TimeoutError, b)
       | Some (h # h' # hs) \<Rightarrow> (Inl StrictModeViolation, b))"

text \<open>
  A click needs a visible, enabled element unless it is forced. It toggles a checkbox;
  what a click on anything else sets off (a form submission, a navigation) is outside
  the page model, which it leaves as it is.
\<close>

definition locator_click :: "locator \<Rightarrow> bool \<Rightarrow> nat option \<Rightarrow> unit action" where
  "locator_click l force t =
     await (invoke (Click l force t)) (\<lambda>_.
     await (the_element l) (\<lambda>h b.
       if force \<or> actionable (dom b ! h)
       then (if tag (dom b ! h) = ''input'' \<and> type_attr (dom b ! h) = ''checkbox''
             then set_checked h (\<not> checked (dom b ! h)) b
             else (Inr (), b))
       else (Inl TimeoutError, b)))"

definition locator_fill :: "locator \<Rightarrow> js_string \<Rightarrow> nat option \<Rightarrow> unit action" where
  "locator_fill l text t =
     await (invoke (Fill l text t)) (\<lambda>_.
     await (the_element l) (\<lambda>h b.
       if fillable (dom b ! h)
       then (if actionable (dom b ! h) then set_value h text b else (Inl TimeoutError, b))
       else (Inl ActionError, b)))"

text \<open>
  \<^verbatim>\<open>check\<close> returns at once on an element that is already checked; otherwise it clicks
  it, which needs the element visible and enabled. \<^verbatim>\<open>uncheck\<close> is the mirror image,
  except that a click cannot clear a radio button.
\<close>

definition locator_check :: "locator \<Rightarrow> nat option \<Rightarrow> unit action" where
  "locator_check l t =
     await (invoke (Check l t)) (\<lambda>_.
     await (the_element l) (\<lambda>h b.
       if checkable (dom b ! h)
       then (if checked (dom b ! h) then (Inr (), b)
             else if actionable (dom b ! h) then set_checked h True b
             else (Inl TimeoutError, b))
       else (Inl ActionError, b)))"

definition locator_uncheck :: "locator \<Rightarrow> nat option \<Rightarrow> unit action" where
  "locator_uncheck l t =
     await (invoke (Uncheck l t)) (\<lambda>_.
     await (the_element l) (\<lambda>h b.
       if checkable (dom b ! h)
       then (if checked (dom b ! h)
             then (if actionable (dom b ! h)
                   then (if type_attr (dom b ! h) = ''radio'' then (Inl ActionError, b)
                         else set_checked h False b)
                   else (Inl TimeoutError, b))
             else (Inr (), b))
       else (Inl ActionError, b)))"

definition locator_isChecked :: "locator \<Rightarrow> bool action" where
  "locator_isChecked l =
     await (invoke (IsChecked l)) (\<lambda>_.
     await (the_element l) (\<lambda>h b.
       if checkable (dom b ! h) then (Inr (checked (dom b ! h)), b) else (Inl ActionError, b)))"

definition locator_textContent :: "locator \<Rightarrow> nat option \<Rightarrow> js_string option action" where
  "locator_textContent l t =
     await (invoke (TextContent l t)) (\<lambda>_.
     await (the_element l) (\<lambda>h b. (Inr (text_content (dom b ! h)), b)))"

text \<open>\<^verbatim>\<open>all\<close> does not wait and accepts any number of matches.\<close>

definition locator_all :: "locator \<Rightarrow> locator list action" where
  "locator_all l =
     await (invoke (All l)) (\<lambda>_ b.
       case resolve (dom b) l of
         None \<Rightarrow> (Inl SelectorError, b)
       | Some hs \<Rightarrow> (Inr (map (Nth l) [0..<length hs]), b))"

text \<open>
  What a selector reads of an element: its tag, its id, its type attribute and its place
  in the tree. Checking a box or filling a field changes none of them.
\<close>

definition shape :: "element \<Rightarrow> string \<times> string \<times> string \<times> nat option" where
  "shape e = (tag e, ident e, type_attr e, parent e)"

section \<open>The action wrapper: utils/CommonActions.ts\<close>

text \<open>
  A \<^verbatim>\<open>CommonActions\<close> object holds nothing but the page, and a test has one page, so
  its methods are functions of the browser. An options object is a record whose fields
  may be absent; the destructuring default \<^verbatim>\<open>{ timeout = 10_000 } = options\<close> applies
  when the field is absent.
\<close>

datatype SelectorOrLocator = Selector string | Loc locator

record TimeoutOptions =
  timeout :: "nat option"

type_synonym FillOptions = TimeoutOptions

type_synonym CheckOptions = TimeoutOptions

record ClickOptions = TimeoutOptions +
  force :: "bool option"

record GetTextOptions = TimeoutOptions +
  trim :: "bool option"

definition default_to :: "'a \<Rightarrow> 'a option \<Rightarrow> 'a" where
  "default_to d x = (case x of None \<Rightarrow> d | Some v \<Rightarrow> v)"

definition priv_getLocator :: "SelectorOrLocator \<Rightarrow> locator" where
  "priv_getLocator selectorOrLocator =
     (case selectorOrLocator of Selector s \<Rightarrow> PageLocator s | Loc l \<Rightarrow> l)"

definition click :: "SelectorOrLocator \<Rightarrow> ClickOptions \<Rightarrow> unit action" where
  "click selectorOrLocator options =
     (let force' = default_to False (force options);
          timeout' = default_to 10000 (timeout options);
          locator = priv_getLocator selectorOrLocator
      in await (locator_waitFor locator Visible (Some timeout')) (\<lambda>_.
         locator_click locator force' (Some timeout')))"

definition fill :: "SelectorOrLocator \<Rightarrow> js_string \<Rightarrow> FillOptions \<Rightarrow> unit action" where
  "fill selectorOrLocator text options =
     (let timeout' = default_to 10000 (timeout options);
          locator = priv_getLocator selectorOrLocator
      in locator_fill locator text (Some timeout'))"

definition check :: "SelectorOrLocator \<Rightarrow> CheckOptions \<Rightarrow> unit action" where
  "check selectorOrLocator options =
     (let timeout' = default_to 10000 (timeout options);
          locator = priv_getLocator selectorOrLocator
      in locator_check locator (Some timeout'))"

text \<open>\<^verbatim>\<open>uncheck\<close> has one parameter and calls \<^verbatim>\<open>locator.uncheck()\<close> with no argument.\<close>

definition uncheck :: "SelectorOrLocator \<Rightarrow> unit action" where
  "uncheck selectorOrLocator =
     (let locator = priv_getLocator selectorOrLocator
      in locator_uncheck locator None)"

definition isChecked :: "SelectorOrLocator \<Rightarrow> CheckOptions \<Rightarrow> bool action" where
  "isChecked selectorOrLocator options =
     (let timeout' = default_to 10000 (timeout options);
          locator = priv_getLocator selectorOrLocator
      in await (locator_waitFor locator Attached (Some timeout')) (\<lambda>_.
         locator_isChecked locator))"

text \<open>
  \<^verbatim>\<open>String.prototype.trim\<close> removes white space and line terminators at both ends.
  These are the code units of the language definition: tab, line feed, vertical tab, form
  feed, carriage return, space, no-break space (U+00A0), the other space separators
  (U+1680, U+2000 to U+200A, U+202F, U+205F, U+3000), the line and paragraph separators
  (U+2028, U+2029) and the byte order mark (U+FEFF).
\<close>

definition is_space :: "code_unit \<Rightarrow> bool" where
  "is_space c =
     (c \<in> set [0x0009, 0x000A, 0x000B, 0x000C, 0x000D, 0x0020, 0x00A0, 0x1680,
               0x2000, 0x2001, 0x2002, 0x2003, 0x2004, 0x2005, 0x2006, 0x2007, 0x2008,
               0x2009, 0x200A, 0x2028, 0x2029, 0x202F, 0x205F, 0x3000, 0xFEFF])"

definition js_trim :: "js_string \<Rightarrow> js_string" where
  "js_trim s = rev (dropWhile is_space (rev (dropWhile is_space s)))"

text \<open>
  The last line of \<^verbatim>\<open>getText\<close> is \<^verbatim>\<open>trim ? text?.trim() : text ?? undefined\<close>, where
  \<^verbatim>\<open>text\<close> is a string or \<^verbatim>\<open>null\<close>. \<open>None\<close> stands for \<^verbatim>\<open>null\<close> in what the library
  returns and for \<^verbatim>\<open>undefined\<close> in what \<^verbatim>\<open>getText\<close> returns.
\<close>

definition getText :: "SelectorOrLocator \<Rightarrow> GetTextOptions \<Rightarrow> js_string option action" where
  "getText selectorOrLocator options =
     (let timeout' = default_to 10000 (timeout options);
          trim' = default_to True (trim options);
          locator = priv_getLocator selectorOrLocator
      in await (locator_waitFor locator Visible (Some timeout')) (\<lambda>_.
         await (locator_textContent locator (Some timeout')) (\<lambda>text.
         ret (if trim' then map_option js_trim text else text))))"

section \<open>The page objects\<close>

text \<open>
  A page object holds the page and its locators, fixed by the constructor. Its
  \<^verbatim>\<open>actions\<close> field is the action wrapper of the same page.
\<close>

record PageHolder =
  page :: Page

subsection \<open>LoginPage\<close>

record LoginPage = PageHolder +
  usernameInput :: locator
  passwordInput :: locator
  loginButton :: locator
  errorMessage :: locator

definition LoginPage_constructor :: "Page \<Rightarrow> LoginPage" where
  \<open>LoginPage_constructor pg =
     \<lparr>page = pg,
      usernameInput = PageLocator ''#username'',
      passwordInput = PageLocator ''#password'',
      loginButton = PageLocator ''button[type="submit"]'',
      errorMessage = PageLocator ''#flash''\<rparr>\<close>

definition login :: "LoginPage \<Rightarrow> js_string \<Rightarrow> js_string \<Rightarrow> unit action" where
  "login this username password =
     await (fill (Loc (usernameInput this)) username \<lparr>timeout = None\<rparr>) (\<lambda>_.
     await (fill (Loc (passwordInput this)) password \<lparr>timeout = None\<rparr>) (\<lambda>_.
     click (Loc (loginButton this)) \<lparr>timeout = None, force = None\<rparr>))"

subsection \<open>SecurePage (pages/SecurePage.ts)\<close>

record SecurePage = PageHolder +
  flashMessage :: string

definition SecurePage_constructor :: "Page \<Rightarrow> SecurePage" where
  "SecurePage_constructor pg = \<lparr>page = pg, flashMessage = ''#flash''\<rparr>"

text \<open>
  \<^verbatim>\<open>message ?? ''\<close> is the message, or the empty string when it is undefined. (The
  JavaScript page object \<^verbatim>\<open>pages/SecurePage.js\<close> returns what \<^verbatim>\<open>getText\<close> returns, as
  it is; the TypeScript one is modelled here.)
\<close>

definition getMessage :: "SecurePage \<Rightarrow> js_string action" where
  "getMessage this =
     await (getText (Selector (flashMessage this)) \<lparr>timeout = Some 8000, trim = None\<rparr>)
       (\<lambda>message. ret (case message of None \<Rightarrow> [] | Some m \<Rightarrow> m))"

subsection \<open>CheckboxesPage\<close>

record CheckboxesPage = PageHolder +
  checkboxesContainer :: locator
  checkboxes :: locator

definition CheckboxesPage_constructor :: "Page \<Rightarrow> CheckboxesPage" where
  \<open>CheckboxesPage_constructor pg =
     \<lparr>page = pg,
      checkboxesContainer = PageLocator ''#checkboxes'',
      checkboxes = SubLocator (PageLocator ''#checkboxes'') ''input[type="checkbox"]''\<rparr>\<close>

text \<open>
  The index is a JavaScript number; the model takes the integers. The template literal
  writes an integer in decimal, with a minus sign when it is negative (JavaScript does so
  for integers below \<open>10\<^sup>2\<^sup>1\<close> in absolute value).
\<close>

function show_nat :: "nat \<Rightarrow> string" where
  "show_nat n =
     (if n < 10 then [char_of (48 + n)]
      else show_nat (n div 10) @ [char_of (48 + n mod 10)])"
  by pat_completeness auto
termination
  by (relation "measure id") auto

declare show_nat.simps [simp del]

definition show_int :: "int \<Rightarrow> string" where
  "show_int i = (if i < 0 then CHR ''-'' # show_nat (nat (- i)) else show_nat (nat i))"



fun checkAll_loop :: "locator list \<Rightarrow> unit action" where
  "checkAll_loop [] = ret ()"
| "checkAll_loop (checkbox # rest) =
     await (locator_isChecked checkbox) (\<lambda>c.
     await (if \<not> c then check (Loc checkbox) \<lparr>timeout = None\<rparr> else ret ()) (\<lambda>_.
     checkAll_loop rest))"

definition checkAll :: "CheckboxesPage \<Rightarrow> unit action" where
  "checkAll this = await (locator_all (checkboxes this)) checkAll_loop"

fun uncheckAll_loop :: "locator list \<Rightarrow> unit action" where
  "uncheckAll_loop [] = ret ()"
| "uncheckAll_loop (checkbox # rest) =
     await (locator_isChecked checkbox) (\<lambda>c.
     await (if c then uncheck (Loc checkbox) else ret ()) (\<lambda>_.
     uncheckAll_loop rest))"

definition uncheckAll :: "CheckboxesPage \<Rightarrow> unit action" where
  "uncheckAll this = await (locator_all (checkboxes this)) uncheckAll_loop"

text \<open>
  \<^verbatim>\<open>Promise.all(allCheckboxes.map(checkbox => checkbox.isChecked()))\<close>: the map makes
  every call, in the order of the array, and \<^verbatim>\<open>Promise.all\<close> gives the results in that
  order, or the first error.
\<close>

fun map_calls :: "('a \<Rightarrow> 'b action) \<Rightarrow> 'a list \<Rightarrow> browser \<Rightarrow> (error + 'b) list \<times> browser" where
  "map_calls f [] b = ([], b)"
| "map_calls f (x # xs) b =
     (case f x b of (r, b') \<Rightarrow> (case map_calls f xs b' of (rs, b'') \<Rightarrow> (r # rs, b'')))"

fun Promise_all :: "(error + 'a) list \<Rightarrow> error + 'a list" where
  "Promise_all [] = Inr []"
| "Promise_all (Inl e # rs) = Inl e"
| "Promise_all (Inr x # rs) = (case Promise_all rs of Inl e \<Rightarrow> Inl e | Inr xs \<Rightarrow> Inr (x # xs))"

definition getCheckboxStates :: "CheckboxesPage \<Rightarrow> bool list action" where
  "getCheckboxStates this =
     await (locator_all (checkboxes this)) (\<lambda>allCheckboxes b.
       case map_calls locator_isChecked allCheckboxes b of (rs, b') \<Rightarrow> (Promise_all rs, b'))"


fun equals :: "bool list \<Rightarrow> bool list \<Rightarrow> bool" where
  "equals [] [] = True"
| "equals (x # xs) (y # ys) = (x = y \<and> equals xs ys)"
| "equals xs ys = False"

definition expect_toEqual :: "bool list \<Rightarrow> bool list \<Rightarrow> unit action" where
  "expect_toEqual actual expected =
     (if equals actual expected then ret () else throw AssertionError)"


definition validateAllCheckboxStates :: "CheckboxesPage \<Rightarrow> bool list \<Rightarrow> unit action" where
  "validateAllCheckboxStates this expectedStates =
     await (getCheckboxStates this) (\<lambda>actualStates.
     expect_toEqual actualStates expectedStates)"

definition toggleCheckbox :: "CheckboxesPage \<Rightarrow> int \<Rightarrow> unit action" where
  \<open>toggleCheckbox this index =
     (let selector = ''input[type="checkbox"]:nth-of-type('' @ show_int index @ '')''
      in await (isChecked (Selector selector) \<lparr>timeout = None\<rparr>) (\<lambda>isCurrentlyChecked.
         if isCurrentlyChecked
         then uncheck (Selector selector)
         else check (Selector selector) \<lparr>timeout = None\<rparr>))\<close>

section \<open>The page-object factory: pages/PomManager\<close>

text \<open>
  A page object is an object of the JavaScript heap, and the factory hands out references
  to it. The heap is a list of the objects constructed so far; a reference is the position
  of an object in that list, so that two references are identical exactly when they are
  the same number.
\<close>

type_synonym ref = nat

text \<open>What \<^verbatim>\<open>new LoginPage(page)\<close> and its siblings put on the heap.\<close>

datatype page_object =
    ALoginPage LoginPage
  | ASecurePage SecurePage
  | ACheckboxesPage CheckboxesPage

type_synonym heap = "page_object list"

definition new :: "page_object \<Rightarrow> heap \<Rightarrow> ref \<times> heap" where
  "new obj h = (length h, h @ [obj])"

text \<open>
  The fields of a \<^verbatim>\<open>PomManager\<close>: the page, and the three private cache fields
  \<^verbatim>\<open>_loginPage\<close>, \<^verbatim>\<open>_securePage\<close>, \<^verbatim>\<open>_checkboxesPage\<close>, where \<open>None\<close> is
  \<^verbatim>\<open>null\<close>.
\<close>

record PomManager = PageHolder +
  priv_loginPage :: "ref option"
  priv_securePage :: "ref option"
  priv_checkboxesPage :: "ref option"

definition PomManager_constructor :: "Page \<Rightarrow> PomManager" where
  "PomManager_constructor pg =
     \<lparr>page = pg, priv_loginPage = None, priv_securePage = None, priv_checkboxesPage = None\<rparr>"

text \<open>
  Each getter tests its field with \<^verbatim>\<open>!this._field\<close>. The field holds \<^verbatim>\<open>null\<close> or an
  object reference, and every object reference is truthy, so the test is the test for
  \<^verbatim>\<open>null\<close>. A getter returns the reference, the manager and the heap.
\<close>

definition getLoginPage :: "PomManager \<Rightarrow> heap \<Rightarrow> ref \<times> PomManager \<times> heap" where
  "getLoginPage this h =
     (case priv_loginPage this of
        None \<Rightarrow>
          (case new (ALoginPage (LoginPage_constructor (page this))) h of
             (r, h') \<Rightarrow> (r, this\<lparr>priv_loginPage := Some r\<rparr>, h'))
      | Some r \<Rightarrow> (r, this, h))"

definition getSecurePage :: "PomManager \<Rightarrow> heap \<Rightarrow> ref \<times> PomManager \<times> heap" where
  "getSecurePage this h =
     (case priv_securePage this of
        None \<Rightarrow>
          (case new (ASecurePage (SecurePage_constructor (page this))) h of
             (r, h') \<Rightarrow> (r, this\<lparr>priv_securePage := Some r\<rparr>, h'))
      | Some r \<Rightarrow> (r, this, h))"

definition getCheckboxesPage :: "PomManager \<Rightarrow> heap \<Rightarrow> ref \<times> PomManager \<times> heap" where
  "getCheckboxesPage this h =
     (case priv_checkboxesPage this of
        None \<Rightarrow>
          (case new (ACheckboxesPage (CheckboxesPage_constructor (page this))) h of
             (r, h') \<Rightarrow> (r, this\<lparr>priv_checkboxesPage := Some r\<rparr>, h'))
      | Some r \<Rightarrow> (r, this, h))"

text \<open>
  The manager has no other method. To speak about "the same getter" and about any
  sequence of calls, the three getters are named by a tag.
\<close>

datatype getter = GetLoginPage | GetSecurePage | GetCheckboxesPage

fun call :: "getter \<Rightarrow> PomManager \<times> heap \<Rightarrow> ref \<times> PomManager \<times> heap" where
  "call GetLoginPage (this, h) = getLoginPage this h"
| "call GetSecurePage (this, h) = getSecurePage this h"
| "call GetCheckboxesPage (this, h) = getCheckboxesPage this h"

fun cached :: "getter \<Rightarrow> PomManager \<Rightarrow> ref option" where
  "cached GetLoginPage this = priv_loginPage this"
| "cached GetSecurePage this = priv_securePage this"
| "cached GetCheckboxesPage this = priv_checkboxesPage this"

fun calls_after :: "getter list \<Rightarrow> PomManager \<times> heap \<Rightarrow> PomManager \<times> heap" where
  "calls_after [] s = s"
| "calls_after (g # gs) s = calls_after gs (snd (call g s))"

section \<open>Observations and example pages\<close>

text \<open>
  What an operation returns or throws, and the library calls it makes: the calls
  recorded after those that were already there.
\<close>

definition result :: "'a action \<Rightarrow> browser \<Rightarrow> error + 'a" where
  "result m b = fst (m b)"

definition issued :: "'a action \<Rightarrow> browser \<Rightarrow> prim_call list" where
  "issued m b = drop (length (calls b)) (calls (snd (m b)))"

definition page_after :: "'a action \<Rightarrow> browser \<Rightarrow> document" where
  "page_after m b = dom (snd (m b))"

text \<open>
  The checkboxes that \<^verbatim>\<open>CheckboxesPage\<close> enumerates: what its \<^verbatim>\<open>checkboxes\<close> locator
  resolves to, in document order.
\<close>

definition container_boxes :: "document \<Rightarrow> nat list" where
  "container_boxes d =
     (case resolve d (checkboxes (CheckboxesPage_constructor (Page 0))) of
        None \<Rightarrow> []
      | Some hs \<Rightarrow> hs)"

text \<open>
  The locator that the index-based methods of \<^verbatim>\<open>CheckboxesPage\<close> hand to the library:
  their selector string, resolved against the whole page.
\<close>

definition nth_checkbox :: "int \<Rightarrow> locator" where
  \<open>nth_checkbox index =
     PageLocator (''input[type="checkbox"]:nth-of-type('' @ show_int index @ '')'')\<close>

text \<open>
  The page \<open>d\<close> with the elements at the positions \<open>hs\<close> set to the state \<open>v\<close>, and
  the same as a relation between two pages, for a set of positions.
\<close>

definition checked_at :: "bool \<Rightarrow> nat list \<Rightarrow> document \<Rightarrow> document" where
  "checked_at v hs d =
     map (\<lambda>i. if i \<in> set hs then (d ! i)\<lparr>checked := v\<rparr> else d ! i) [0..<length d]"

definition with_states :: "bool \<Rightarrow> nat set \<Rightarrow> document \<Rightarrow> document \<Rightarrow> bool" where
  "with_states v H d d' =
     (length d' = length d \<and>
      (\<forall>i<length d. d' ! i = (if i \<in> H then (d ! i)\<lparr>checked := v\<rparr> else d ! i)))"

definition opened :: "document \<Rightarrow> browser" where
  "opened d = \<lparr>dom = d, calls = []\<rparr>"

text \<open>A visible, enabled, unchecked element with an empty value and an empty text.\<close>

definition elem :: "string \<Rightarrow> string \<Rightarrow> string \<Rightarrow> nat option \<Rightarrow> element" where
  "elem t i ty p =
     \<lparr>tag = t, ident = i, type_attr = ty, parent = p, visible = True, enabled = True,
      checked = False, input_value = [], text_content = Some []\<rparr>"

text \<open>
  The checkboxes page of the site under test: a form \<^verbatim>\<open>#checkboxes\<close> whose children are
  checkbox inputs, here with any states.
\<close>

definition checkboxes_page :: "bool list \<Rightarrow> document" where
  "checkboxes_page states =
     elem ''form'' ''checkboxes'' [] None #
     map (\<lambda>c. (elem ''input'' [] ''checkbox'' (Some 0))\<lparr>checked := c\<rparr>) states"

text \<open>
  The checkboxes page with two checkboxes, the first unchecked and the second hidden, in
  the given state.
\<close>

definition hidden_box_page :: "bool \<Rightarrow> document" where
  "hidden_box_page c =
     [elem ''form'' ''checkboxes'' [] None,
      elem ''input'' [] ''checkbox'' (Some 0),
      (elem ''input'' [] ''checkbox'' (Some 0))\<lparr>visible := False, checked := c\<rparr>]"

text \<open>The login page: a form with the two inputs and the submit button, and the flash area.\<close>

definition login_page :: document where
  "login_page =
     [elem ''form'' ''login'' [] None,
      elem ''input'' ''username'' ''text'' (Some 0),
      elem ''input'' ''password'' ''password'' (Some 0),
      elem ''button'' [] ''submit'' (Some 0),
      (elem ''div'' ''flash'' [] None)\<lparr>text_content := Some (js '' Your username is invalid! '')\<rparr>]"

text \<open>The login page with the password field disabled.\<close>

definition locked_login_page :: document where
  "locked_login_page = login_page[2 := (login_page ! 2)\<lparr>enabled := False\<rparr>]"


text \<open>
  A page whose only element is the flash area, visible or not, with the text content that
  the library reports for it (a string, or \<^verbatim>\<open>null\<close>).
\<close>

definition flash_page :: "bool \<Rightarrow> js_string option \<Rightarrow> document" where
  "flash_page v text = [(elem ''div'' ''flash'' [] None)\<lparr>visible := v, text_content := text\<rparr>]"


text \<open>A page with two checkboxes outside the container and one inside.\<close>

definition outside_boxes_page :: document where
  "outside_boxes_page =
     [elem ''div'' [] [] None,
      elem ''input'' [] ''checkbox'' (Some 0),
      elem ''input'' [] ''checkbox'' (Some 0),
      elem ''form'' ''checkboxes'' [] None,
      elem ''input'' [] ''checkbox'' (Some 3)]"

section \<open>Sequencing and library calls\<close>

lemma await_Inr: "m b = (Inr x, b') \<Longrightarrow> await m f b = f x b'"
  by (simp add: await_def)

lemma await_Inl: "m b = (Inl e, b') \<Longrightarrow> await m f b = (Inl e, b')"
  by (simp add: await_def)

lemma invoke_eq: "invoke c b = (Inr (), b\<lparr>calls := calls b @ [c]\<rparr>)"
  by (simp add: invoke_def)


text \<open>What the library calls record and return.\<close>

lemma locator_waitFor_calls:
  "calls (snd (locator_waitFor l st t b)) = calls b @ [WaitFor l st t]"
  by (simp add: locator_waitFor_def await_def invoke_def split: option.splits list.splits)

lemma locator_waitFor_dom:
  "dom (snd (locator_waitFor l st t b)) = dom b"
  by (simp add: locator_waitFor_def await_def invoke_def split: option.splits list.splits)

lemma locator_waitFor_snd:
  "snd (locator_waitFor l st t b) = b\<lparr>calls := calls b @ [WaitFor l st t]\<rparr>"
  by (simp add: locator_waitFor_def await_def invoke_def split: option.splits list.splits)

lemma locator_waitFor_visible_result:
  "fst (locator_waitFor l Visible t b) =
     (case resolve (dom b) l of
        None \<Rightarrow> Inl SelectorError
      | Some [] \<Rightarrow> Inl TimeoutError
      | Some [h] \<Rightarrow> if visible (dom b ! h) then Inr () else Inl TimeoutError
      | Some (h # h' # hs) \<Rightarrow> Inl StrictModeViolation)"
  by (simp add: locator_waitFor_def await_def invoke_def wait_holds_def split: option.splits list.splits)

lemma locator_click_calls:
  "calls (snd (locator_click l f t b)) = calls b @ [Click l f t]"
  by (simp add: locator_click_def await_def invoke_def the_element_def set_checked_def
      split: option.splits list.splits)

lemma locator_fill_calls:
  "calls (snd (locator_fill l x t b)) = calls b @ [Fill l x t]"
  by (simp add: locator_fill_def await_def invoke_def the_element_def set_value_def
      split: option.splits list.splits)

lemma locator_check_calls:
  "calls (snd (locator_check l t b)) = calls b @ [Check l t]"
  by (simp add: locator_check_def await_def invoke_def the_element_def set_checked_def
      split: option.splits list.splits)

lemma locator_uncheck_calls:
  "calls (snd (locator_uncheck l t b)) = calls b @ [Uncheck l t]"
  by (simp add: locator_uncheck_def await_def invoke_def the_element_def set_checked_def
      split: option.splits list.splits)

lemma locator_textContent_calls:
  "calls (snd (locator_textContent l t b)) = calls b @ [TextContent l t]"
  by (simp add: locator_textContent_def await_def invoke_def the_element_def
      split: option.splits list.splits)


lemma locator_textContent_result:
  "fst (locator_textContent l t b) =
     (case resolve (dom b) l of
        None \<Rightarrow> Inl SelectorError
      | Some [] \<Rightarrow> Inl TimeoutError
      | Some [h] \<Rightarrow> Inr (text_content (dom b ! h))
      | Some (h # h' # hs) \<Rightarrow> Inl StrictModeViolation)"
  by (simp add: locator_textContent_def await_def invoke_def the_element_def
      split: option.splits list.splits)


lemma fill_calls:
  "calls (snd (fill x text options b)) =
     calls b @ [Fill (priv_getLocator x) text (Some (default_to 10000 (timeout options)))]"
  by (simp add: fill_def Let_def locator_fill_calls)


text \<open>The selectors of the page objects.\<close>

lemma parse_button:
  \<open>parse_selector ''button[type="submit"]'' =
     Some (ByTagType ''button'' ''submit'' None)\<close>
  by (simp add: parse_selector_def)

lemma parse_username: "parse_selector ''#username'' = Some (ById ''username'')"
  by (simp add: parse_selector_def)

lemma parse_password: "parse_selector ''#password'' = Some (ById ''password'')"
  by (simp add: parse_selector_def)

lemma parse_flash: "parse_selector ''#flash'' = Some (ById ''flash'')"
  by (simp add: parse_selector_def)

section \<open>Locators do not depend on the state of the elements\<close>

lemma shape_nth:
  assumes "map shape d' = map shape d" and "i < length d"
  shows "tag (d' ! i) = tag (d ! i)" "ident (d' ! i) = ident (d ! i)"
    "type_attr (d' ! i) = type_attr (d ! i)" "parent (d' ! i) = parent (d ! i)"
proof -
  from assms have "length d' = length d"
    by (metis length_map)
  with assms have "shape (d' ! i) = shape (d ! i)"
    by (metis nth_map)
  then show "tag (d' ! i) = tag (d ! i)" "ident (d' ! i) = ident (d ! i)"
    "type_attr (d' ! i) = type_attr (d ! i)" "parent (d' ! i) = parent (d ! i)"
    by (simp_all add: shape_def)
qed

lemma nth_of_type_shape:
  assumes "map shape d' = map shape d" and "i < length d"
  shows "nth_of_type d' i = nth_of_type d i"
proof -
  have "filter (\<lambda>j. parent (d' ! j) = parent (d' ! i) \<and> tag (d' ! j) = tag (d' ! i)) [0..<i] =
        filter (\<lambda>j. parent (d ! j) = parent (d ! i) \<and> tag (d ! j) = tag (d ! i)) [0..<i]"
    using assms(2) by (intro filter_cong refl) (simp add: shape_nth [OF assms(1)])
  then show ?thesis by (simp add: nth_of_type_def)
qed

lemma matches_shape:
  assumes "map shape d' = map shape d" and "i < length d"
  shows "matches d' c i = matches d c i"
  using assms(2)
  by (cases c)
     (simp_all add: shape_nth [OF assms(1)] nth_of_type_shape [OF assms(1)] split: option.splits)

lemma inside_shape:
  assumes "map shape d' = map shape d"
  shows "inside d' n roots i = inside d n roots i"
proof (induction n arbitrary: i)
  case 0
  show ?case by simp
next
  case (Suc n)
  from assms have len: "length d' = length d"
    by (metis length_map)
  show ?case
  proof (cases "i < length d")
    case True
    then have "parent (d' ! i) = parent (d ! i)"
      by (simp add: shape_nth [OF assms])
    with True len Suc.IH show ?thesis
      by (simp split: option.splits)
  next
    case False
    with len show ?thesis by simp
  qed
qed

lemma resolve_shape:
  assumes "map shape d' = map shape d"
  shows "resolve d' l = resolve d l"
proof (induction l)
  case (PageLocator s)
  from assms have len: "length d' = length d"
    by (metis length_map)
  have "filter (matches d' c) [0..<length d] = filter (matches d c) [0..<length d]" for c
    by (intro filter_cong refl) (simp add: matches_shape [OF assms])
  with len show ?case
    by (simp add: resolve.simps split: option.splits)
next
  case (SubLocator l s)
  from assms have len: "length d' = length d"
    by (metis length_map)
  have "filter (\<lambda>i. matches d' c i \<and> inside d' (length d) roots i) [0..<length d] =
        filter (\<lambda>i. matches d c i \<and> inside d (length d) roots i) [0..<length d]" for c roots
    by (intro filter_cong refl) (simp add: matches_shape [OF assms] inside_shape [OF assms])
  with len SubLocator show ?case
    by (simp add: resolve.simps split: option.splits)
next
  case (Nth l k)
  then show ?case by (simp add: resolve.simps)
qed

lemma map_update_same:
  assumes "f x = f (xs ! h)"
  shows "map f (xs[h := x]) = map f xs"
proof (cases "h < length xs")
  case True
  with assms show ?thesis
    by (simp add: map_update list_update_same_conv)
next
  case False
  then have "length xs \<le> h" by simp
  then have "xs[h := x] = xs" by (rule list_update_beyond)
  then show ?thesis by simp
qed

lemma shape_checked: "map shape (d[h := (d ! h)\<lparr>checked := v\<rparr>]) = map shape d"
  by (rule map_update_same) (simp add: shape_def)

lemma shape_value: "map shape (d[h := (d ! h)\<lparr>input_value := v\<rparr>]) = map shape d"
  by (rule map_update_same) (simp add: shape_def)

lemma shape_enabled: "map shape (d[h := (d ! h)\<lparr>enabled := v\<rparr>]) = map shape d"
  by (rule map_update_same) (simp add: shape_def)

lemma resolve_enabled: "resolve (d[h := (d ! h)\<lparr>enabled := v\<rparr>]) l = resolve d l"
  by (rule resolve_shape) (rule shape_enabled)

lemma resolve_checked: "resolve (d[h := (d ! h)\<lparr>checked := v\<rparr>]) l = resolve d l"
  by (rule resolve_shape) (rule shape_checked)

lemma resolve_value: "resolve (d[h := (d ! h)\<lparr>input_value := v\<rparr>]) l = resolve d l"
  by (rule resolve_shape) (rule shape_value)

text \<open>Library calls on a locator with one element.\<close>

lemma the_element_one: "resolve (dom b) l = Some [h] \<Longrightarrow> the_element l b = (Inr h, b)"
  by (simp add: the_element_def)

lemma locator_fill_one:
  assumes "resolve (dom b) l = Some [h]"
  shows "locator_fill l text t b =
     (if fillable (dom b ! h)
      then (if actionable (dom b ! h)
            then (Inr (), b\<lparr>dom := (dom b)[h := (dom b ! h)\<lparr>input_value := text\<rparr>],
                             calls := calls b @ [Fill l text t]\<rparr>)
            else (Inl TimeoutError, b\<lparr>calls := calls b @ [Fill l text t]\<rparr>))
      else (Inl ActionError, b\<lparr>calls := calls b @ [Fill l text t]\<rparr>))"
  using assms
  by (simp add: locator_fill_def await_def invoke_def the_element_def set_value_def)

lemma locator_check_one:
  assumes "resolve (dom b) l = Some [h]"
  shows "locator_check l t b =
     (if checkable (dom b ! h)
      then (if checked (dom b ! h) then (Inr (), b\<lparr>calls := calls b @ [Check l t]\<rparr>)
            else if actionable (dom b ! h)
            then (Inr (), b\<lparr>dom := (dom b)[h := (dom b ! h)\<lparr>checked := True\<rparr>],
                             calls := calls b @ [Check l t]\<rparr>)
            else (Inl TimeoutError, b\<lparr>calls := calls b @ [Check l t]\<rparr>))
      else (Inl ActionError, b\<lparr>calls := calls b @ [Check l t]\<rparr>))"
  using assms
  by (simp add: locator_check_def await_def invoke_def the_element_def set_checked_def)

lemma locator_uncheck_one:
  assumes "resolve (dom b) l = Some [h]"
  shows "locator_uncheck l t b =
     (if checkable (dom b ! h)
      then (if checked (dom b ! h)
            then (if actionable (dom b ! h)
                  then (if type_attr (dom b ! h) = ''radio''
                        then (Inl ActionError, b\<lparr>calls := calls b @ [Uncheck l t]\<rparr>)
                        else (Inr (), b\<lparr>dom := (dom b)[h := (dom b ! h)\<lparr>checked := False\<rparr>],
                                         calls := calls b @ [Uncheck l t]\<rparr>))
                  else (Inl TimeoutError, b\<lparr>calls := calls b @ [Uncheck l t]\<rparr>))
            else (Inr (), b\<lparr>calls := calls b @ [Uncheck l t]\<rparr>))
      else (Inl ActionError, b\<lparr>calls := calls b @ [Uncheck l t]\<rparr>))"
  using assms
  by (simp add: locator_uncheck_def await_def invoke_def the_element_def set_checked_def)

lemma locator_isChecked_one:
  assumes "resolve (dom b) l = Some [h]"
  shows "locator_isChecked l b =
     (if checkable (dom b ! h) then Inr (checked (dom b ! h)) else Inl ActionError,
      b\<lparr>calls := calls b @ [IsChecked l]\<rparr>)"
  using assms
  by (simp add: locator_isChecked_def await_def invoke_def the_element_def)

lemma locator_waitFor_one:
  assumes "resolve (dom b) l = Some [h]"
  shows "locator_waitFor l st t b =
     (if wait_holds st (Some (dom b ! h)) then Inr () else Inl TimeoutError,
      b\<lparr>calls := calls b @ [WaitFor l st t]\<rparr>)"
  using assms
  by (simp add: locator_waitFor_def await_def invoke_def)

lemma locator_click_one:
  assumes "resolve (dom b) l = Some [h]"
  shows "locator_click l forced t b =
     (if forced \<or> actionable (dom b ! h)
      then (if tag (dom b ! h) = ''input'' \<and> type_attr (dom b ! h) = ''checkbox''
            then (Inr (), b\<lparr>dom := (dom b)[h := (dom b ! h)\<lparr>checked := \<not> checked (dom b ! h)\<rparr>],
                             calls := calls b @ [Click l forced t]\<rparr>)
            else (Inr (), b\<lparr>calls := calls b @ [Click l forced t]\<rparr>))
      else (Inl TimeoutError, b\<lparr>calls := calls b @ [Click l forced t]\<rparr>))"
  using assms
  by (simp add: locator_click_def await_def invoke_def the_element_def set_checked_def)

section \<open>CheckboxesPage: the enumerated checkboxes\<close>

lemma parse_checkbox:
  \<open>parse_selector ''input[type="checkbox"]'' = Some (ByTagType ''input'' ''checkbox'' None)\<close>
  by (simp add: parse_selector_def)

lemma parse_container: "parse_selector ''#checkboxes'' = Some (ById ''checkboxes'')"
  by (simp add: parse_selector_def)

lemma resolve_sound:
  "resolve d l = Some hs \<Longrightarrow> distinct hs \<and> (\<forall>h\<in>set hs. h < length d)"
proof (induction l arbitrary: hs)
  case (PageLocator s)
  then show ?case by (auto simp: resolve.simps split: option.splits)
next
  case (SubLocator l s)
  then show ?case by (auto simp: resolve.simps split: option.splits)
next
  case (Nth l k)
  then show ?case by (auto simp: resolve.simps split: option.splits if_splits)
qed

lemma resolve_Nth:
  "resolve d l = Some hs \<Longrightarrow> k < length hs \<Longrightarrow> resolve d (Nth l k) = Some [hs ! k]"
  by (simp add: resolve.simps)

lemma checkboxes_constructor:
  \<open>checkboxes (CheckboxesPage_constructor pg) =
     SubLocator (PageLocator ''#checkboxes'') ''input[type="checkbox"]''\<close>
  by (simp add: CheckboxesPage_constructor_def)

lemma resolve_checkboxes:
  "resolve d (checkboxes (CheckboxesPage_constructor pg)) = Some (container_boxes d)"
  by (simp add: container_boxes_def checkboxes_constructor resolve.simps
      parse_checkbox parse_container)

lemma container_boxes_checkable:
  "h \<in> set (container_boxes d) \<Longrightarrow> checkable (d ! h)"
  by (simp add: container_boxes_def checkboxes_constructor resolve.simps
      parse_checkbox parse_container checkable_def)

text \<open>Reading the states of all checkboxes.\<close>

lemma Promise_all_Inr: "Promise_all (map Inr xs) = Inr xs"
  by (induction xs) simp_all

lemma map_calls_isChecked:
  assumes "resolve (dom b) l = Some hs"
    and "\<forall>h\<in>set hs. checkable (dom b ! h)"
    and "\<forall>k\<in>set ks. k < length hs"
  shows "map_calls locator_isChecked (map (Nth l) ks) b =
     (map (\<lambda>k. Inr (checked (dom b ! (hs ! k)))) ks,
      b\<lparr>calls := calls b @ map (\<lambda>k. IsChecked (Nth l k)) ks\<rparr>)"
  using assms
proof (induction ks arbitrary: b)
  case Nil
  show ?case by simp
next
  case (Cons k ks)
  from Cons.prems have k: "k < length hs" by simp
  with Cons.prems have one: "resolve (dom b) (Nth l k) = Some [hs ! k]"
    by (simp add: resolve_Nth)
  from k Cons.prems have ck: "checkable (dom b ! (hs ! k))" by simp
  define b1 where "b1 = b\<lparr>calls := calls b @ [IsChecked (Nth l k)]\<rparr>"
  have d1: "dom b1 = dom b" and c1: "calls b1 = calls b @ [IsChecked (Nth l k)]"
    by (simp_all add: b1_def)
  have s: "locator_isChecked (Nth l k) b = (Inr (checked (dom b ! (hs ! k))), b1)"
    by (simp add: locator_isChecked_one [OF one] ck b1_def)
  have "map_calls locator_isChecked (map (Nth l) ks) b1 =
     (map (\<lambda>k. Inr (checked (dom b1 ! (hs ! k)))) ks,
      b1\<lparr>calls := calls b1 @ map (\<lambda>k. IsChecked (Nth l k)) ks\<rparr>)"
    using Cons.prems by (intro Cons.IH) (simp_all add: d1)
  with s show ?case
    by (simp add: d1 b1_def)
qed

lemma getCheckboxStates_eq:
  assumes "resolve (dom b) (checkboxes this) = Some hs"
    and "\<forall>h\<in>set hs. checkable (dom b ! h)"
  shows "getCheckboxStates this b =
     (Inr (map (\<lambda>h. checked (dom b ! h)) hs),
      b\<lparr>calls := calls b @ All (checkboxes this) #
                  map (\<lambda>k. IsChecked (Nth (checkboxes this) k)) [0..<length hs]\<rparr>)"
proof -
  define b1 where "b1 = b\<lparr>calls := calls b @ [All (checkboxes this)]\<rparr>"
  have d1: "dom b1 = dom b" by (simp add: b1_def)
  have a: "locator_all (checkboxes this) b = (Inr (map (Nth (checkboxes this)) [0..<length hs]), b1)"
    using assms(1) by (simp add: locator_all_def await_def invoke_def b1_def)
  have m: "map_calls locator_isChecked (map (Nth (checkboxes this)) [0..<length hs]) b1 =
     (map (\<lambda>k. Inr (checked (dom b ! (hs ! k)))) [0..<length hs],
      b1\<lparr>calls := calls b1 @ map (\<lambda>k. IsChecked (Nth (checkboxes this) k)) [0..<length hs]\<rparr>)"
    using map_calls_isChecked [of b1 "checkboxes this" hs "[0..<length hs]"] assms
    by (simp add: d1)
  have eq: "map (\<lambda>k. Inr (checked (dom b ! (hs ! k)))) [0..<length hs] =
        map Inr (map (\<lambda>h. checked (dom b ! h)) hs)"
    by (intro nth_equalityI) simp_all
  have p: "Promise_all (map (\<lambda>k. Inr (checked (dom b ! (hs ! k)))) [0..<length hs]) =
        Inr (map (\<lambda>h. checked (dom b ! h)) hs)"
    unfolding eq by (rule Promise_all_Inr)
  from a m p show ?thesis
    by (simp add: getCheckboxStates_def await_def b1_def)
qed

lemma getCheckboxStates_result:
  "result (getCheckboxStates (CheckboxesPage_constructor pg)) b =
     Inr (map (\<lambda>h. checked (dom b ! h)) (container_boxes (dom b)))"
  using getCheckboxStates_eq [OF resolve_checkboxes, of b pg]
  by (simp add: result_def container_boxes_checkable)

section \<open>The selector of the index-based methods\<close>

lemma parse_digits_append:
  "parse_digits a (xs @ ys) =
     (case parse_digits a xs of None \<Rightarrow> None | Some a' \<Rightarrow> parse_digits a' ys)"
  by (induction xs arbitrary: a) simp_all

lemma parse_digits_digit: "n < 10 \<Longrightarrow> parse_digits a [char_of (48 + n)] = Some (10 * a + n)"
  by (simp add: is_digit_def)

lemma parse_digits_show_nat: "parse_digits 0 (show_nat n) = Some n"
proof (induction n rule: show_nat.induct)
  case (1 n)
  show ?case
  proof (cases "n < 10")
    case True
    then show ?thesis
      using parse_digits_digit [of n 0] by (simp add: show_nat.simps [of n])
  next
    case False
    with 1 have "parse_digits 0 (show_nat (n div 10)) = Some (n div 10)" by simp
    with False show ?thesis
      using parse_digits_digit [of "n mod 10" "n div 10"]
      by (simp add: show_nat.simps [of n] parse_digits_append)
  qed
qed

lemma show_nat_not_empty: "show_nat n \<noteq> []"
  by (simp add: show_nat.simps [of n])

lemma show_nat_hd_digit: "is_digit (hd (show_nat n))"
proof (induction n rule: show_nat.induct)
  case (1 n)
  show ?case
  proof (cases "n < 10")
    case True
    then show ?thesis
      by (simp add: show_nat.simps [of n] is_digit_def)
  next
    case False
    with 1 show ?thesis
      by (simp add: show_nat.simps [of n] show_nat_not_empty)
  qed
qed

lemma parse_int_show_int: "parse_int (show_int i) = Some i"
proof (cases "i < 0")
  case True
  obtain c cs where s: "show_nat (nat (- i)) = c # cs"
    using show_nat_not_empty [of "nat (- i)"] by (cases "show_nat (nat (- i))") auto
  have "parse_int (CHR ''-'' # c # cs) = map_option (\<lambda>n. - int n) (parse_digits 0 (c # cs))"
    by (simp add: parse_int_def)
  also have "\<dots> = Some (- int (nat (- i)))"
    unfolding s [symmetric] parse_digits_show_nat by simp
  finally show ?thesis
    using True by (simp add: show_int_def s)
next
  case False
  obtain c cs where s: "show_nat (nat i) = c # cs"
    using show_nat_not_empty [of "nat i"] by (cases "show_nat (nat i)") auto
  with show_nat_hd_digit [of "nat i"] have "c \<noteq> CHR ''-''"
    by (auto simp: is_digit_def)
  with s False parse_digits_show_nat [of "nat i"] show ?thesis
    by (simp add: parse_int_def show_int_def)
qed

lemma parse_nth_show_int: "parse_nth ('':nth-of-type('' @ show_int i @ '')'') = Some i"
  by (simp add: parse_nth_def parse_int_show_int)

lemma parse_nth_checkbox:
  \<open>parse_selector (''input[type="checkbox"]:nth-of-type('' @ show_int i @ '')'') =
     Some (ByTagType ''input'' ''checkbox'' (Some i))\<close>
  using parse_nth_show_int [of i] by (simp add: parse_selector_def)

lemma resolve_nth_checkbox:
  "resolve d (nth_checkbox i) =
     Some (filter (\<lambda>h. tag (d ! h) = ''input'' \<and> type_attr (d ! h) = ''checkbox'' \<and>
                        int (nth_of_type d h) = i) [0..<length d])"
  unfolding nth_checkbox_def resolve.simps parse_nth_checkbox
  by (simp cong: filter_cong)

lemma nth_checkbox_element:
  assumes "resolve d (nth_checkbox i) = Some hs" and "h \<in> set hs"
  shows "h < length d" "tag (d ! h) = ''input''" "type_attr (d ! h) = ''checkbox''"
    "checkable (d ! h)"
  using assms by (auto simp: resolve_nth_checkbox checkable_def)

section \<open>The action wrapper: click\<close>

lemma click_calls:
  "issued (click selectorOrLocator options) b =
     WaitFor (priv_getLocator selectorOrLocator) Visible (Some (default_to 10000 (timeout options))) #
     (case result (locator_waitFor (priv_getLocator selectorOrLocator) Visible
                     (Some (default_to 10000 (timeout options)))) b of
        Inl e \<Rightarrow> []
      | Inr u \<Rightarrow> [Click (priv_getLocator selectorOrLocator) (default_to False (force options))
                    (Some (default_to 10000 (timeout options)))])"
proof -
  let ?l = "priv_getLocator selectorOrLocator"
  let ?t = "Some (default_to 10000 (timeout options))"
  obtain r b' where w: "locator_waitFor ?l Visible ?t b = (r, b')"
    by (cases "locator_waitFor ?l Visible ?t b")
  from w locator_waitFor_calls [of ?l Visible ?t b]
  have c: "calls b' = calls b @ [WaitFor ?l Visible ?t]" by simp
  show ?thesis
  proof (cases r)
    case (Inl e)
    with w c show ?thesis
      by (simp add: click_def Let_def await_def issued_def result_def)
  next
    case (Inr u)
    with w c locator_click_calls [of ?l "default_to False (force options)" ?t b']
    show ?thesis
      by (simp add: click_def Let_def await_def issued_def result_def)
  qed
qed

lemma click_all_calls:
  "calls (snd (click x options b)) = calls b @ issued (click x options) b"
proof -
  let ?l = "priv_getLocator x"
  let ?t = "Some (default_to 10000 (timeout options))"
  obtain r b' where w: "locator_waitFor ?l Visible ?t b = (r, b')"
    by (cases "locator_waitFor ?l Visible ?t b")
  from w locator_waitFor_calls [of ?l Visible ?t b]
  have c: "calls b' = calls b @ [WaitFor ?l Visible ?t]" by simp
  show ?thesis
  proof (cases r)
    case (Inl e)
    with w c show ?thesis
      by (simp add: click_def Let_def await_def issued_def)
  next
    case (Inr u)
    with w c locator_click_calls [of ?l "default_to False (force options)" ?t b']
    show ?thesis
      by (simp add: click_def Let_def await_def issued_def)
  qed
qed

lemma click_propagates:
  "result (locator_waitFor (priv_getLocator x) Visible
             (Some (default_to 10000 (timeout options)))) b = Inl e \<Longrightarrow>
   click x options b =
     (Inl e, b\<lparr>calls := calls b @
        [WaitFor (priv_getLocator x) Visible (Some (default_to 10000 (timeout options)))]\<rparr>)"
proof -
  let ?w = "locator_waitFor (priv_getLocator x) Visible (Some (default_to 10000 (timeout options)))"
  assume "result ?w b = Inl e"
  then have "?w b = (Inl e, snd (?w b))"
    by (simp add: result_def prod_eq_iff)
  then have "click x options b = (Inl e, snd (?w b))"
    by (simp add: click_def Let_def await_Inl)
  then show ?thesis by (simp add: locator_waitFor_snd)
qed


lemma resolve_login_button:
  \<open>resolve login_page (PageLocator ''button[type="submit"]'') = Some [3]\<close>
  by (simp add: resolve.simps parse_button login_page_def elem_def upt_rec)




section \<open>The action wrapper: check and uncheck\<close>

text \<open>
  \<^verbatim>\<open>check\<close> hands its timeout, 10000 when the option is absent, to the library;
  \<^verbatim>\<open>uncheck\<close> hands it none.
\<close>

lemma check_passes_timeout_uncheck_passes_none:
  "issued (check selectorOrLocator options) b =
     [Check (priv_getLocator selectorOrLocator) (Some (default_to 10000 (timeout options)))] \<and>
   issued (uncheck selectorOrLocator) b = [Uncheck (priv_getLocator selectorOrLocator) None]"
  by (simp add: issued_def check_def uncheck_def Let_def locator_check_calls locator_uncheck_calls)

text \<open>
  Claim C3 says that \<^verbatim>\<open>check\<close> and \<^verbatim>\<open>uncheck\<close> both take a timeout option with the
  default 10000 and pass it to the library. The code does so for \<^verbatim>\<open>check\<close> only:
  \<^verbatim>\<open>uncheck('#agree')\<close> calls the library's \<^verbatim>\<open>uncheck\<close> without a timeout, where
  \<^verbatim>\<open>check('#agree')\<close> calls \<^verbatim>\<open>check\<close> with 10000.
\<close>

theorem uncheck_without_timeout:
  "issued (check (Selector ''#agree'') \<lparr>timeout = None\<rparr>) (opened []) =
     [Check (PageLocator ''#agree'') (Some 10000)] \<and>
   issued (uncheck (Selector ''#agree'')) (opened []) = [Uncheck (PageLocator ''#agree'') None]"
  by (simp add: issued_def check_def uncheck_def Let_def locator_check_calls locator_uncheck_calls
      priv_getLocator_def default_to_def)

section \<open>The action wrapper: getText\<close>

lemma getText_unfold:
  "getText x options b =
     (case locator_waitFor (priv_getLocator x) Visible (Some (default_to 10000 (timeout options))) b of
        (Inl e, b') \<Rightarrow> (Inl e, b')
      | (Inr u, b') \<Rightarrow>
          (case locator_textContent (priv_getLocator x) (Some (default_to 10000 (timeout options))) b' of
             (Inl e, b'') \<Rightarrow> (Inl e, b'')
           | (Inr text, b'') \<Rightarrow>
               (Inr (if default_to True (trim options) then map_option js_trim text else text), b'')))"
  by (simp add: getText_def Let_def await_def ret_def split: prod.splits sum.splits)

lemma getText_calls:
  "calls (snd (getText x options b)) =
     calls b @
     WaitFor (priv_getLocator x) Visible (Some (default_to 10000 (timeout options))) #
     (case result (locator_waitFor (priv_getLocator x) Visible
                     (Some (default_to 10000 (timeout options)))) b of
        Inl e \<Rightarrow> []
      | Inr u \<Rightarrow> [TextContent (priv_getLocator x) (Some (default_to 10000 (timeout options)))])"
proof -
  let ?l = "priv_getLocator x"
  let ?t = "Some (default_to 10000 (timeout options))"
  obtain r b' where w: "locator_waitFor ?l Visible ?t b = (r, b')"
    by (cases "locator_waitFor ?l Visible ?t b")
  from w locator_waitFor_calls [of ?l Visible ?t b]
  have c: "calls b' = calls b @ [WaitFor ?l Visible ?t]" by simp
  show ?thesis
  proof (cases r)
    case (Inl e)
    with w c show ?thesis
      by (simp add: getText_unfold result_def)
  next
    case (Inr u)
    obtain r' b'' where tc: "locator_textContent ?l ?t b' = (r', b'')"
      by (cases "locator_textContent ?l ?t b'")
    from tc locator_textContent_calls [of ?l ?t b']
    have "calls b'' = calls b' @ [TextContent ?l ?t]" by simp
    with Inr w c tc show ?thesis
      by (simp add: getText_unfold result_def split: sum.splits)
  qed
qed

lemma getText_visible:
  assumes "resolve (dom b) (priv_getLocator x) = Some [h]" and "visible (dom b ! h)"
  shows "result (getText x options) b =
     Inr (if default_to True (trim options) then map_option js_trim (text_content (dom b ! h))
          else text_content (dom b ! h))"
proof -
  let ?l = "priv_getLocator x"
  let ?t = "Some (default_to 10000 (timeout options))"
  obtain r b' where w: "locator_waitFor ?l Visible ?t b = (r, b')"
    by (cases "locator_waitFor ?l Visible ?t b")
  from w assms locator_waitFor_visible_result [of ?l ?t b]
  have r: "r = Inr ()" by simp
  from w locator_waitFor_dom [of ?l Visible ?t b]
  have d: "dom b' = dom b" by simp
  obtain r' b'' where tc: "locator_textContent ?l ?t b' = (r', b'')"
    by (cases "locator_textContent ?l ?t b'")
  from tc assms d locator_textContent_result [of ?l ?t b']
  have "r' = Inr (text_content (dom b ! h))" by simp
  with w r tc show ?thesis
    by (simp add: getText_unfold result_def)
qed

lemma getText_propagates:
  "result (locator_waitFor (priv_getLocator x) Visible
             (Some (default_to 10000 (timeout options)))) b = Inl e \<Longrightarrow>
   result (getText x options) b = Inl e"
proof -
  let ?w = "locator_waitFor (priv_getLocator x) Visible (Some (default_to 10000 (timeout options)))"
  assume "result ?w b = Inl e"
  then have "?w b = (Inl e, snd (?w b))"
    by (simp add: result_def prod_eq_iff)
  then have "getText x options b = (Inl e, snd (?w b))"
    by (simp add: getText_def Let_def await_Inl)
  then show ?thesis
    by (simp add: result_def)
qed



lemma resolve_flash_page: "resolve (flash_page v text) (PageLocator ''#flash'') = Some [0]"
  by (simp add: resolve.simps parse_flash flash_page_def elem_def upt_rec)


lemma flash_page_0:
  "visible (flash_page v text ! 0) = v" "text_content (flash_page v text ! 0) = text"
  by (simp_all add: flash_page_def elem_def)






section \<open>SecurePage: getMessage\<close>

text \<open>
  Claim C10. \<^verbatim>\<open>SecurePage.getMessage\<close> (the TypeScript page object) calls
  \<^verbatim>\<open>getText\<close> on \<^verbatim>\<open>#flash\<close> with the timeout 8000, so that both library calls carry
  8000 and not the default 10000. Whenever it returns, it returns a string: the text
  that \<^verbatim>\<open>getText\<close> returned, or the empty string when \<^verbatim>\<open>getText\<close> returned undefined.
  An error of \<^verbatim>\<open>getText\<close> is passed on.
\<close>

theorem getMessage_returns_string:
  "issued (getMessage this) b =
     issued (getText (Selector (flashMessage this)) \<lparr>timeout = Some 8000, trim = None\<rparr>) b \<and>
   issued (getMessage (SecurePage_constructor pg)) b =
     WaitFor (PageLocator ''#flash'') Visible (Some 8000) #
     (case result (locator_waitFor (PageLocator ''#flash'') Visible (Some 8000)) b of
        Inl e \<Rightarrow> []
      | Inr u \<Rightarrow> [TextContent (PageLocator ''#flash'') (Some 8000)]) \<and>
   result (getMessage this) b =
     (case result (getText (Selector (flashMessage this)) \<lparr>timeout = Some 8000, trim = None\<rparr>) b of
        Inl e \<Rightarrow> Inl e
      | Inr None \<Rightarrow> Inr []
      | Inr (Some m) \<Rightarrow> Inr m) \<and>
   (\<forall>h. resolve (dom b) (PageLocator ''#flash'') = Some [h] \<and> visible (dom b ! h) \<longrightarrow>
        result (getMessage (SecurePage_constructor pg)) b =
          Inr (case text_content (dom b ! h) of None \<Rightarrow> [] | Some m \<Rightarrow> js_trim m))"
proof -
  let ?o = "\<lparr>timeout = Some 8000, trim = None\<rparr>"
  have same: "issued (getMessage s) b = issued (getText (Selector (flashMessage s)) ?o) b" for s
    by (simp add: issued_def getMessage_def await_def ret_def split: prod.splits sum.splits)
  have res: "result (getMessage s) b =
     (case result (getText (Selector (flashMessage s)) ?o) b of
        Inl e \<Rightarrow> Inl e
      | Inr None \<Rightarrow> Inr []
      | Inr (Some m) \<Rightarrow> Inr m)" for s
    by (simp add: result_def getMessage_def await_def ret_def
        split: prod.splits sum.splits option.splits)
  have "issued (getText (Selector ''#flash'') ?o) b =
     WaitFor (PageLocator ''#flash'') Visible (Some 8000) #
     (case result (locator_waitFor (PageLocator ''#flash'') Visible (Some 8000)) b of
        Inl e \<Rightarrow> []
      | Inr u \<Rightarrow> [TextContent (PageLocator ''#flash'') (Some 8000)])"
    using getText_calls [of "Selector ''#flash''" ?o b]
    by (simp add: issued_def priv_getLocator_def default_to_def split: sum.splits)
  then have iss: "issued (getMessage (SecurePage_constructor pg)) b =
     WaitFor (PageLocator ''#flash'') Visible (Some 8000) #
     (case result (locator_waitFor (PageLocator ''#flash'') Visible (Some 8000)) b of
        Inl e \<Rightarrow> []
      | Inr u \<Rightarrow> [TextContent (PageLocator ''#flash'') (Some 8000)])"
    by (simp add: same SecurePage_constructor_def)
  have vis: "result (getMessage (SecurePage_constructor pg)) b =
          Inr (case text_content (dom b ! h) of None \<Rightarrow> [] | Some m \<Rightarrow> js_trim m)"
    if "resolve (dom b) (PageLocator ''#flash'') = Some [h] \<and> visible (dom b ! h)" for h
    using that getText_visible [of b "Selector ''#flash''" h ?o]
    by (simp add: res SecurePage_constructor_def priv_getLocator_def default_to_def
        split: option.splits)
  from same res iss vis show ?thesis by blast
qed

text \<open>
  A visible flash area without text gives the empty string, with both calls at 8000;
  a hidden one gives the timeout of the wait.
\<close>

theorem getMessage_returns_string_witness:
  "resolve (dom (opened (flash_page True None))) (PageLocator ''#flash'') = Some [0] \<and>
   visible (dom (opened (flash_page True None)) ! 0) \<and>
   result (getText (Selector ''#flash'') \<lparr>timeout = Some 8000, trim = None\<rparr>)
     (opened (flash_page True None)) = Inr None \<and>
   result (getMessage (SecurePage_constructor (Page 0))) (opened (flash_page True None)) = Inr [] \<and>
   issued (getMessage (SecurePage_constructor (Page 0))) (opened (flash_page True None)) =
     [WaitFor (PageLocator ''#flash'') Visible (Some 8000),
      TextContent (PageLocator ''#flash'') (Some 8000)] \<and>
   result (getMessage (SecurePage_constructor (Page 0))) (opened (flash_page False None)) =
     Inl TimeoutError"
proof -
  let ?b = "opened (flash_page True None)"
  let ?h = "opened (flash_page False None)"
  let ?o = "\<lparr>timeout = Some 8000, trim = None\<rparr>"
  let ?sp = "SecurePage_constructor (Page 0)"
  have r: "resolve (dom ?b) (PageLocator ''#flash'') = Some [0]"
    and rh: "resolve (dom ?h) (PageLocator ''#flash'') = Some [0]"
    by (simp_all add: opened_def resolve_flash_page)
  have v: "visible (dom ?b ! 0)" and t: "text_content (dom ?b ! 0) = None"
    and vh: "\<not> visible (dom ?h ! 0)"
    by (simp_all add: opened_def flash_page_0)
  have w: "result (locator_waitFor (PageLocator ''#flash'') Visible (Some 8000)) ?b = Inr ()"
    by (simp add: result_def locator_waitFor_visible_result r v)
  have wh: "result (locator_waitFor (PageLocator ''#flash'') Visible (Some 8000)) ?h =
      Inl TimeoutError"
    by (simp add: result_def locator_waitFor_visible_result rh vh)
  have g: "result (getText (Selector ''#flash'') ?o) ?b = Inr None"
    using getText_visible [of ?b "Selector ''#flash''" 0 ?o] r v t
    by (simp add: priv_getLocator_def default_to_def)
  have gh: "result (getText (Selector ''#flash'') ?o) ?h = Inl TimeoutError"
    using getText_propagates [of "Selector ''#flash''" ?o ?h TimeoutError] wh
    by (simp add: priv_getLocator_def default_to_def)
  have f: "flashMessage ?sp = ''#flash''"
    by (simp add: SecurePage_constructor_def)
  note m = getMessage_returns_string [of ?sp _ "Page 0"]
  from m [of ?b, THEN conjunct2, THEN conjunct1] w
  have i1: "issued (getMessage ?sp) ?b =
     [WaitFor (PageLocator ''#flash'') Visible (Some 8000),
      TextContent (PageLocator ''#flash'') (Some 8000)]"
    by simp
  from m [of ?b, THEN conjunct2, THEN conjunct2, THEN conjunct1] g f
  have r1: "result (getMessage ?sp) ?b = Inr []"
    by simp
  from m [of ?h, THEN conjunct2, THEN conjunct2, THEN conjunct1] gh f
  have r2: "result (getMessage ?sp) ?h = Inl TimeoutError"
    by simp
  from r v g i1 r1 r2 show ?thesis by simp
qed

section \<open>LoginPage: login\<close>

lemma click_succeeds_calls:
  assumes "result (click x options) b = Inr ()"
  shows "issued (click x options) b =
     [WaitFor (priv_getLocator x) Visible (Some (default_to 10000 (timeout options))),
      Click (priv_getLocator x) (default_to False (force options))
        (Some (default_to 10000 (timeout options)))]"
proof (cases "result (locator_waitFor (priv_getLocator x) Visible
                 (Some (default_to 10000 (timeout options)))) b")
  case (Inl e)
  from click_propagates [OF Inl] assms show ?thesis
    by (simp add: result_def)
next
  case (Inr u)
  with click_calls [of x options b] show ?thesis by simp
qed

lemma login_calls:
  fixes this :: LoginPage and username password :: js_string
  defines "f1 \<equiv> Fill (usernameInput this) username (Some 10000)"
    and "f2 \<equiv> Fill (passwordInput this) password (Some 10000)"
    and "w \<equiv> WaitFor (loginButton this) Visible (Some 10000)"
    and "c \<equiv> Click (loginButton this) False (Some 10000)"
  shows "issued (login this username password) b \<in> {[f1], [f1, f2], [f1, f2, w], [f1, f2, w, c]} \<and>
         (result (login this username password) b = Inr () \<longrightarrow>
            issued (login this username password) b = [f1, f2, w, c])"
proof -
  let ?o = "\<lparr>timeout = None\<rparr>"
  let ?co = "\<lparr>timeout = None, force = None\<rparr>"
  obtain r1 b1 where s1: "fill (Loc (usernameInput this)) username ?o b = (r1, b1)"
    by (cases "fill (Loc (usernameInput this)) username ?o b")
  from s1 fill_calls [of "Loc (usernameInput this)" username ?o b]
  have c1: "calls b1 = calls b @ [f1]"
    by (simp add: f1_def priv_getLocator_def default_to_def)
  show ?thesis
  proof (cases r1)
    case (Inl e)
    with s1 c1 show ?thesis
      by (simp add: login_def await_def issued_def result_def)
  next
    case r1: (Inr u1)
    obtain r2 b2 where s2: "fill (Loc (passwordInput this)) password ?o b1 = (r2, b2)"
      by (cases "fill (Loc (passwordInput this)) password ?o b1")
    from s2 fill_calls [of "Loc (passwordInput this)" password ?o b1]
    have c2: "calls b2 = calls b @ [f1, f2]"
      by (simp add: c1 f2_def priv_getLocator_def default_to_def)
    show ?thesis
    proof (cases r2)
      case (Inl e)
      with s1 r1 s2 c2 show ?thesis
        by (simp add: login_def await_def issued_def result_def)
    next
      case r2: (Inr u2)
      have l: "login this username password b = click (Loc (loginButton this)) ?co b2"
        using s1 r1 s2 r2 by (simp add: login_def await_def)
      define cs where "cs = issued (click (Loc (loginButton this)) ?co) b2"
      have c3: "calls (snd (click (Loc (loginButton this)) ?co b2)) = calls b @ [f1, f2] @ cs"
        using click_all_calls [of "Loc (loginButton this)" ?co b2] c2 by (simp add: cs_def)
      have i: "issued (login this username password) b = [f1, f2] @ cs"
        by (simp add: issued_def l c3)
      have two: "cs = [w] \<or> cs = [w, c]"
        using click_calls [of "Loc (loginButton this)" ?co b2]
        by (simp add: cs_def w_def c_def priv_getLocator_def default_to_def split: sum.splits)
      have full: "cs = [w, c]" if "result (login this username password) b = Inr ()"
        using that l click_succeeds_calls [of "Loc (loginButton this)" ?co b2]
        by (simp add: cs_def result_def w_def c_def priv_getLocator_def default_to_def)
      from two full show ?thesis
        by (auto simp: i)
    qed
  qed
qed

lemma login_chain:
  "login this username password =
     await (locator_fill (usernameInput this) username (Some 10000)) (\<lambda>_.
     await (locator_fill (passwordInput this) password (Some 10000)) (\<lambda>_.
     await (locator_waitFor (loginButton this) Visible (Some 10000)) (\<lambda>_.
     locator_click (loginButton this) False (Some 10000))))"
  by (simp add: login_def fill_def click_def Let_def priv_getLocator_def default_to_def)

lemma nth_update_field:
  assumes "f x = f (d ! h)"
  shows "f (d[h := x] ! i) = f (d ! i)"
proof (cases "h < length d")
  case True
  with assms show ?thesis by (cases "i = h") simp_all
next
  case False
  then have "d[h := x] = d" by (simp add: list_update_beyond)
  then show ?thesis by simp
qed

lemma resolve_button_tag:
  \<open>resolve d (PageLocator ''button[type="submit"]'') = Some hs \<Longrightarrow> h \<in> set hs \<Longrightarrow>
     tag (d ! h) = ''button''\<close>
  by (auto simp: resolve.simps parse_button)

text \<open>
  \<^verbatim>\<open>login\<close> on a page where each of its three locators has one element: how far it
  gets depends on the page alone.
\<close>

lemma login_one:
  fixes this :: LoginPage and username password :: js_string
  assumes ru: "resolve (dom b) (usernameInput this) = Some [hu]"
    and rp: "resolve (dom b) (passwordInput this) = Some [hp]"
    and rb: "resolve (dom b) (loginButton this) = Some [hb]"
    and tb: "tag (dom b ! hb) \<noteq> ''input''"
  defines "f1 \<equiv> Fill (usernameInput this) username (Some 10000)"
    and "f2 \<equiv> Fill (passwordInput this) password (Some 10000)"
    and "w \<equiv> WaitFor (loginButton this) Visible (Some 10000)"
    and "c \<equiv> Click (loginButton this) False (Some 10000)"
    and "d1 \<equiv> (dom b)[hu := (dom b ! hu)\<lparr>input_value := username\<rparr>]"
  defines "d2 \<equiv> d1[hp := (d1 ! hp)\<lparr>input_value := password\<rparr>]"
  shows "login this username password b =
    (if \<not> fillable (dom b ! hu) then (Inl ActionError, b\<lparr>calls := calls b @ [f1]\<rparr>)
     else if \<not> actionable (dom b ! hu) then (Inl TimeoutError, b\<lparr>calls := calls b @ [f1]\<rparr>)
     else if \<not> fillable (dom b ! hp)
       then (Inl ActionError, b\<lparr>dom := d1, calls := calls b @ [f1, f2]\<rparr>)
     else if \<not> actionable (dom b ! hp)
       then (Inl TimeoutError, b\<lparr>dom := d1, calls := calls b @ [f1, f2]\<rparr>)
     else if \<not> visible (dom b ! hb)
       then (Inl TimeoutError, b\<lparr>dom := d2, calls := calls b @ [f1, f2, w]\<rparr>)
     else if \<not> enabled (dom b ! hb)
       then (Inl TimeoutError, b\<lparr>dom := d2, calls := calls b @ [f1, f2, w, c]\<rparr>)
     else (Inr (), b\<lparr>dom := d2, calls := calls b @ [f1, f2, w, c]\<rparr>))"
proof (cases "fillable (dom b ! hu) \<and> actionable (dom b ! hu)")
  case False
  then show ?thesis
    by (auto simp: login_chain await_def locator_fill_one [OF ru] f1_def)
next
  case okU: True
  define b1 where "b1 = b\<lparr>dom := d1, calls := calls b @ [f1]\<rparr>"
  have dom1: "dom b1 = d1"
    by (simp add: b1_def)
  have s1: "locator_fill (usernameInput this) username (Some 10000) b = (Inr (), b1)"
    using okU by (simp add: locator_fill_one [OF ru] b1_def d1_def f1_def)
  have r1: "resolve (dom b1) (passwordInput this) = Some [hp]"
    by (simp add: dom1 d1_def resolve_value rp)
  have e1: "fillable (dom b1 ! hp) = fillable (dom b ! hp)"
    "actionable (dom b1 ! hp) = actionable (dom b ! hp)"
    unfolding dom1 d1_def
    by (rule nth_update_field, simp add: fillable_def actionable_def)+
  have l1: "login this username password b =
     await (locator_fill (passwordInput this) password (Some 10000)) (\<lambda>_.
     await (locator_waitFor (loginButton this) Visible (Some 10000)) (\<lambda>_.
     locator_click (loginButton this) False (Some 10000))) b1"
    unfolding login_chain by (rule await_Inr) (rule s1)
  have st1: "b1\<lparr>calls := calls b1 @ [f2]\<rparr> = b\<lparr>dom := d1, calls := calls b @ [f1, f2]\<rparr>"
    by (simp add: b1_def)
  show ?thesis
  proof (cases "fillable (dom b ! hp) \<and> actionable (dom b ! hp)")
    case False
    then have "locator_fill (passwordInput this) password (Some 10000) b1 =
       (Inl (if fillable (dom b ! hp) then TimeoutError else ActionError),
        b1\<lparr>calls := calls b1 @ [f2]\<rparr>)"
      by (auto simp: locator_fill_one [OF r1] e1 f2_def)
    then have "login this username password b =
       (Inl (if fillable (dom b ! hp) then TimeoutError else ActionError),
        b1\<lparr>calls := calls b1 @ [f2]\<rparr>)"
      unfolding l1 by (rule await_Inl)
    with okU False show ?thesis
      unfolding st1 by auto
  next
    case okP: True
    define b2 where "b2 = b\<lparr>dom := d2, calls := calls b @ [f1, f2]\<rparr>"
    have dom2: "dom b2 = d2"
      by (simp add: b2_def)
    have "locator_fill (passwordInput this) password (Some 10000) b1 =
       (Inr (), b1\<lparr>dom := (dom b1)[hp := (dom b1 ! hp)\<lparr>input_value := password\<rparr>],
                   calls := calls b1 @ [f2]\<rparr>)"
      using okP by (simp add: locator_fill_one [OF r1] e1 f2_def)
    also have "b1\<lparr>dom := (dom b1)[hp := (dom b1 ! hp)\<lparr>input_value := password\<rparr>],
                   calls := calls b1 @ [f2]\<rparr> = b2"
      by (simp add: b1_def b2_def d2_def)
    finally have s2: "locator_fill (passwordInput this) password (Some 10000) b1 = (Inr (), b2)" .
    have r2: "resolve (dom b2) (loginButton this) = Some [hb]"
      by (simp add: dom2 d2_def d1_def resolve_value rb)
    have e2: "visible (dom b2 ! hb) = visible (dom b ! hb)"
      "enabled (dom b2 ! hb) = enabled (dom b ! hb)"
      "tag (dom b2 ! hb) = tag (dom b ! hb)"
      unfolding dom2 d2_def d1_def
      by (simp_all add: nth_update_field)
    have l2: "login this username password b =
       await (locator_waitFor (loginButton this) Visible (Some 10000)) (\<lambda>_.
       locator_click (loginButton this) False (Some 10000)) b2"
      unfolding l1 by (rule await_Inr) (rule s2)
    define b3 where "b3 = b\<lparr>dom := d2, calls := calls b @ [f1, f2, w]\<rparr>"
    have st3: "b2\<lparr>calls := calls b2 @ [w]\<rparr> = b3"
      by (simp add: b2_def b3_def)
    have "locator_waitFor (loginButton this) Visible (Some 10000) b2 =
       (if visible (dom b ! hb) then Inr () else Inl TimeoutError, b2\<lparr>calls := calls b2 @ [w]\<rparr>)"
      by (simp add: locator_waitFor_one [OF r2] e2 wait_holds_def w_def)
    then have s3: "locator_waitFor (loginButton this) Visible (Some 10000) b2 =
       (if visible (dom b ! hb) then Inr () else Inl TimeoutError, b3)"
      unfolding st3 .
    show ?thesis
    proof (cases "visible (dom b ! hb)")
      case False
      with s3 have "locator_waitFor (loginButton this) Visible (Some 10000) b2 =
          (Inl TimeoutError, b3)"
        by simp
      then have "login this username password b = (Inl TimeoutError, b3)"
        unfolding l2 by (rule await_Inl)
      with okU okP False show ?thesis
        by (simp add: b3_def)
    next
      case vis: True
      with s3 have "locator_waitFor (loginButton this) Visible (Some 10000) b2 = (Inr (), b3)"
        by simp
      then have l3: "login this username password b =
         locator_click (loginButton this) False (Some 10000) b3"
        unfolding l2 by (rule await_Inr)
      have dom3: "dom b3 = dom b2"
        by (simp add: b3_def dom2)
      have r3: "resolve (dom b3) (loginButton this) = Some [hb]"
        using r2 by (simp add: dom3)
      have st4: "b3\<lparr>calls := calls b3 @ [c]\<rparr> = b\<lparr>dom := d2, calls := calls b @ [f1, f2, w, c]\<rparr>"
        by (simp add: b3_def)
      have "locator_click (loginButton this) False (Some 10000) b3 =
         (if enabled (dom b ! hb) then Inr () else Inl TimeoutError,
          b3\<lparr>calls := calls b3 @ [c]\<rparr>)"
        using vis tb by (simp add: locator_click_one [OF r3] dom3 e2 actionable_def c_def)
      with okU okP vis show ?thesis
        unfolding l3 st4 by simp
    qed
  qed
qed

text \<open>
  Claim C7. For every username and password, \<^verbatim>\<open>login\<close> calls the action wrapper three
  times, in this order and with nothing in between: \<^verbatim>\<open>fill\<close> on the username field with
  the username as given, \<^verbatim>\<open>fill\<close> on the password field with the password as given,
  \<^verbatim>\<open>click\<close> on the submit button. In library calls, \<^verbatim>\<open>login\<close> is the sequence of a
  fill, a fill, and the wait and the click of \<^verbatim>\<open>click\<close>, each made when the one before
  it has returned, and nothing else. The calls made are therefore always an initial part of
  this sequence, beginning with the fill of the username, and they are the whole sequence
  whenever \<^verbatim>\<open>login\<close> returns. The strings are not inspected: on a page where each of
  the three locators has one element, how far \<^verbatim>\<open>login\<close> gets is decided by these
  elements alone (a field that cannot be filled, or a field or button that is not visible
  and enabled, ends it), the same for every username and password, the empty string
  included; and the fields that were filled hold the strings as given.
\<close>

theorem login_fills_username_password_then_clicks:
  \<open>(let this = LoginPage_constructor pg;
        user = PageLocator ''#username'';
        pass = PageLocator ''#password'';
        button = PageLocator ''button[type="submit"]'';
        expected =
          [Fill user username (Some 10000),
           Fill pass password (Some 10000),
           WaitFor button Visible (Some 10000),
           Click button False (Some 10000)];
        made = issued (login this username password) b
    in made \<noteq> [] \<and> take (length made) expected = made \<and>
       (result (login this username password) b = Inr () \<longrightarrow> made = expected) \<and>
       login this username password b =
         await (locator_fill user username (Some 10000)) (\<lambda>_.
         await (locator_fill pass password (Some 10000)) (\<lambda>_.
         await (locator_waitFor button Visible (Some 10000)) (\<lambda>_.
         locator_click button False (Some 10000)))) b \<and>
       (\<forall>hu hp hb.
          resolve (dom b) user = Some [hu] \<and> resolve (dom b) pass = Some [hp] \<and>
          resolve (dom b) button = Some [hb] \<longrightarrow>
          (let d1 = (dom b)[hu := (dom b ! hu)\<lparr>input_value := username\<rparr>];
               d2 = d1[hp := (d1 ! hp)\<lparr>input_value := password\<rparr>]
           in result (login this username password) b =
                (if \<not> fillable (dom b ! hu) then Inl ActionError
                 else if \<not> actionable (dom b ! hu) then Inl TimeoutError
                 else if \<not> fillable (dom b ! hp) then Inl ActionError
                 else if \<not> actionable (dom b ! hp) then Inl TimeoutError
                 else if \<not> actionable (dom b ! hb) then Inl TimeoutError
                 else Inr ()) \<and>
              made =
                (if \<not> (fillable (dom b ! hu) \<and> actionable (dom b ! hu)) then take 1 expected
                 else if \<not> (fillable (dom b ! hp) \<and> actionable (dom b ! hp))
                   then take 2 expected
                 else if \<not> visible (dom b ! hb) then take 3 expected
                 else expected) \<and>
              page_after (login this username password) b =
                (if \<not> (fillable (dom b ! hu) \<and> actionable (dom b ! hu)) then dom b
                 else if \<not> (fillable (dom b ! hp) \<and> actionable (dom b ! hp)) then d1
                 else d2))))\<close>
proof -
  let ?lp = "LoginPage_constructor pg"
  let ?U = "PageLocator ''#username''"
  let ?P = "PageLocator ''#password''"
  let ?B = \<open>PageLocator ''button[type="submit"]''\<close>
  have sel: "usernameInput ?lp = ?U" "passwordInput ?lp = ?P" "loginButton ?lp = ?B"
    by (simp_all add: LoginPage_constructor_def)
  have first: "issued (login ?lp username password) b \<noteq> [] \<and>
      take (length (issued (login ?lp username password) b))
        [Fill ?U username (Some 10000), Fill ?P password (Some 10000),
         WaitFor ?B Visible (Some 10000), Click ?B False (Some 10000)] =
        issued (login ?lp username password) b \<and>
      (result (login ?lp username password) b = Inr () \<longrightarrow>
         issued (login ?lp username password) b =
           [Fill ?U username (Some 10000), Fill ?P password (Some 10000),
            WaitFor ?B Visible (Some 10000), Click ?B False (Some 10000)])"
    using login_calls [of ?lp username password b]
    unfolding sel by auto
  have chain: "login ?lp username password b =
         await (locator_fill ?U username (Some 10000)) (\<lambda>_.
         await (locator_fill ?P password (Some 10000)) (\<lambda>_.
         await (locator_waitFor ?B Visible (Some 10000)) (\<lambda>_.
         locator_click ?B False (Some 10000)))) b"
    using login_chain [of ?lp username password] unfolding sel by simp
  have one: "result (login ?lp username password) b =
                (if \<not> fillable (dom b ! hu) then Inl ActionError
                 else if \<not> actionable (dom b ! hu) then Inl TimeoutError
                 else if \<not> fillable (dom b ! hp) then Inl ActionError
                 else if \<not> actionable (dom b ! hp) then Inl TimeoutError
                 else if \<not> actionable (dom b ! hb) then Inl TimeoutError
                 else Inr ()) \<and>
              issued (login ?lp username password) b =
                (if \<not> (fillable (dom b ! hu) \<and> actionable (dom b ! hu))
                   then take 1 [Fill ?U username (Some 10000), Fill ?P password (Some 10000),
                     WaitFor ?B Visible (Some 10000), Click ?B False (Some 10000)]
                 else if \<not> (fillable (dom b ! hp) \<and> actionable (dom b ! hp))
                   then take 2 [Fill ?U username (Some 10000), Fill ?P password (Some 10000),
                     WaitFor ?B Visible (Some 10000), Click ?B False (Some 10000)]
                 else if \<not> visible (dom b ! hb)
                   then take 3 [Fill ?U username (Some 10000), Fill ?P password (Some 10000),
                     WaitFor ?B Visible (Some 10000), Click ?B False (Some 10000)]
                 else [Fill ?U username (Some 10000), Fill ?P password (Some 10000),
                     WaitFor ?B Visible (Some 10000), Click ?B False (Some 10000)]) \<and>
              page_after (login ?lp username password) b =
                (if \<not> (fillable (dom b ! hu) \<and> actionable (dom b ! hu)) then dom b
                 else if \<not> (fillable (dom b ! hp) \<and> actionable (dom b ! hp))
                   then (dom b)[hu := (dom b ! hu)\<lparr>input_value := username\<rparr>]
                 else ((dom b)[hu := (dom b ! hu)\<lparr>input_value := username\<rparr>])
                        [hp := ((dom b)[hu := (dom b ! hu)\<lparr>input_value := username\<rparr>] ! hp)
                                 \<lparr>input_value := password\<rparr>])"
    if r: "resolve (dom b) ?U = Some [hu] \<and> resolve (dom b) ?P = Some [hp] \<and>
          resolve (dom b) ?B = Some [hb]" for hu hp hb
  proof -
    from r have ru: "resolve (dom b) (usernameInput ?lp) = Some [hu]"
      and rp: "resolve (dom b) (passwordInput ?lp) = Some [hp]"
      and rb: "resolve (dom b) (loginButton ?lp) = Some [hb]"
      unfolding sel by simp_all
    from r have "tag (dom b ! hb) = ''button''"
      by (intro resolve_button_tag [of "dom b" "[hb]"]) simp_all
    then have tb: "tag (dom b ! hb) \<noteq> ''input''"
      by simp
    show ?thesis
      unfolding result_def issued_def page_after_def login_one [OF ru rp rb tb] sel
      by (simp add: actionable_def)
  qed
  from first chain one show ?thesis
    unfolding Let_def by blast
qed

lemma resolve_login_username: "resolve login_page (PageLocator ''#username'') = Some [1]"
  by (simp add: resolve.simps parse_username login_page_def elem_def upt_rec)

lemma resolve_login_password: "resolve login_page (PageLocator ''#password'') = Some [2]"
  by (simp add: resolve.simps parse_password login_page_def elem_def upt_rec)

lemma resolve_locked_login:
  "resolve locked_login_page (PageLocator ''#username'') = Some [1]"
  "resolve locked_login_page (PageLocator ''#password'') = Some [2]"
  \<open>resolve locked_login_page (PageLocator ''button[type="submit"]'') = Some [3]\<close>
  unfolding locked_login_page_def
  by (simp_all add: resolve_enabled resolve_login_username resolve_login_password
      resolve_login_button)

lemma login_page_fields:
  "fillable (login_page ! Suc 0)" "actionable (login_page ! Suc 0)"
  "fillable (login_page ! 2)" "actionable (login_page ! 2)"
  "actionable (login_page ! 3)" "visible (login_page ! 3)"
  by (simp_all add: login_page_def elem_def fillable_def actionable_def)

lemma locked_login_page_fields:
  "fillable (locked_login_page ! Suc 0)" "actionable (locked_login_page ! Suc 0)"
  "fillable (locked_login_page ! 2)" "\<not> actionable (locked_login_page ! 2)"
  by (simp_all add: locked_login_page_def login_page_def elem_def fillable_def actionable_def)

text \<open>
  On the login page all four calls are made and \<^verbatim>\<open>login\<close> returns, with a name and a
  password and with both strings empty, and the fields hold the strings. On the login
  page with the password field disabled it stops at the second fill, with a name and a
  password and with both strings empty.
\<close>

theorem login_fills_username_password_then_clicks_witness:
  \<open>resolve (dom (opened login_page)) (PageLocator ''#username'') = Some [1] \<and>
   resolve (dom (opened login_page)) (PageLocator ''#password'') = Some [2] \<and>
   resolve (dom (opened login_page)) (PageLocator ''button[type="submit"]'') = Some [3] \<and>
   result (login (LoginPage_constructor (Page 0)) (js ''tomsmith'') (js ''SuperSecretPassword!''))
     (opened login_page) = Inr () \<and>
   issued (login (LoginPage_constructor (Page 0)) (js ''tomsmith'') (js ''SuperSecretPassword!''))
     (opened login_page) =
     [Fill (PageLocator ''#username'') (js ''tomsmith'') (Some 10000),
      Fill (PageLocator ''#password'') (js ''SuperSecretPassword!'') (Some 10000),
      WaitFor (PageLocator ''button[type="submit"]'') Visible (Some 10000),
      Click (PageLocator ''button[type="submit"]'') False (Some 10000)] \<and>
   page_after (login (LoginPage_constructor (Page 0)) (js ''tomsmith'') (js ''SuperSecretPassword!''))
     (opened login_page) =
     login_page[1 := (login_page ! 1)\<lparr>input_value := js ''tomsmith''\<rparr>,
                2 := (login_page ! 2)\<lparr>input_value := js ''SuperSecretPassword!''\<rparr>] \<and>
   result (login (LoginPage_constructor (Page 0)) [] []) (opened login_page) = Inr () \<and>
   issued (login (LoginPage_constructor (Page 0)) [] []) (opened login_page) =
     [Fill (PageLocator ''#username'') [] (Some 10000),
      Fill (PageLocator ''#password'') [] (Some 10000),
      WaitFor (PageLocator ''button[type="submit"]'') Visible (Some 10000),
      Click (PageLocator ''button[type="submit"]'') False (Some 10000)] \<and>
   result (login (LoginPage_constructor (Page 0)) (js ''tomsmith'') (js ''SuperSecretPassword!''))
     (opened locked_login_page) = Inl TimeoutError \<and>
   issued (login (LoginPage_constructor (Page 0)) (js ''tomsmith'') (js ''SuperSecretPassword!''))
     (opened locked_login_page) =
     [Fill (PageLocator ''#username'') (js ''tomsmith'') (Some 10000),
      Fill (PageLocator ''#password'') (js ''SuperSecretPassword!'') (Some 10000)] \<and>
   result (login (LoginPage_constructor (Page 0)) [] []) (opened locked_login_page) =
     Inl TimeoutError \<and>
   issued (login (LoginPage_constructor (Page 0)) [] []) (opened locked_login_page) =
     [Fill (PageLocator ''#username'') [] (Some 10000),
      Fill (PageLocator ''#password'') [] (Some 10000)]\<close>
proof -
  define u where "u = js ''tomsmith''"
  define p where "p = js ''SuperSecretPassword!''"
  have r: "resolve (dom (opened login_page)) (PageLocator ''#username'') = Some [1]"
    "resolve (dom (opened login_page)) (PageLocator ''#password'') = Some [2]"
    \<open>resolve (dom (opened login_page)) (PageLocator ''button[type="submit"]'') = Some [3]\<close>
    by (simp_all add: opened_def resolve_login_username resolve_login_password
        resolve_login_button)
  have rl: "resolve (dom (opened locked_login_page)) (PageLocator ''#username'') = Some [1]"
    "resolve (dom (opened locked_login_page)) (PageLocator ''#password'') = Some [2]"
    \<open>resolve (dom (opened locked_login_page)) (PageLocator ''button[type="submit"]'') = Some [3]\<close>
    by (simp_all add: opened_def resolve_locked_login)
  have d: "dom (opened login_page) = login_page"
    "dom (opened locked_login_page) = locked_login_page"
    by (simp_all add: opened_def)
  have one: \<open>result (login (LoginPage_constructor (Page 0)) x y) (opened login_page) = Inr () \<and>
      issued (login (LoginPage_constructor (Page 0)) x y) (opened login_page) =
        [Fill (PageLocator ''#username'') x (Some 10000),
         Fill (PageLocator ''#password'') y (Some 10000),
         WaitFor (PageLocator ''button[type="submit"]'') Visible (Some 10000),
         Click (PageLocator ''button[type="submit"]'') False (Some 10000)] \<and>
      page_after (login (LoginPage_constructor (Page 0)) x y) (opened login_page) =
        login_page[1 := (login_page ! 1)\<lparr>input_value := x\<rparr>,
                   2 := (login_page ! 2)\<lparr>input_value := y\<rparr>]\<close> for x y
  proof -
    have "login_page[1 := (login_page ! 1)\<lparr>input_value := x\<rparr>] ! 2 = login_page ! 2"
      by simp
    with login_fills_username_password_then_clicks
           [of "Page 0" x y "opened login_page", unfolded Let_def, THEN conjunct2,
            THEN conjunct2, THEN conjunct2, THEN conjunct2, rule_format, of 1 2 3] r
    show ?thesis
      by (simp add: d login_page_fields cong: if_cong)
  qed
  have two: "result (login (LoginPage_constructor (Page 0)) x y) (opened locked_login_page) =
        Inl TimeoutError \<and>
      issued (login (LoginPage_constructor (Page 0)) x y) (opened locked_login_page) =
        [Fill (PageLocator ''#username'') x (Some 10000),
         Fill (PageLocator ''#password'') y (Some 10000)]" for x y
    using login_fills_username_password_then_clicks
           [of "Page 0" x y "opened locked_login_page", unfolded Let_def, THEN conjunct2,
            THEN conjunct2, THEN conjunct2, THEN conjunct2, rule_format, of 1 2 3] rl
    by (simp add: d locked_login_page_fields cong: if_cong)
  from r one [of u p] one [of "[]" "[]"] two [of u p] two [of "[]" "[]"]
  show ?thesis
    unfolding u_def p_def by simp
qed
section \<open>CheckboxesPage: validateAllCheckboxStates\<close>

lemma equals_iff: "equals xs ys = (xs = ys)"
  by (induction xs ys rule: equals.induct) auto

text \<open>
  Claim C8. \<^verbatim>\<open>validateAllCheckboxStates(expected)\<close> returns exactly when
  \<^verbatim>\<open>getCheckboxStates()\<close> returns a sequence equal to \<^verbatim>\<open>expected\<close>; when it returns
  a different sequence the assertion fails, and when it throws, its error is passed on.
  On the locators of the page object \<^verbatim>\<open>getCheckboxStates\<close> always returns: the states
  of the enumerated checkboxes in document order. The comparison of \<^verbatim>\<open>toEqual\<close> is
  equality of the lengths and of the booleans at every position.
\<close>

theorem validateAllCheckboxStates_iff_states_equal:
  "((result (validateAllCheckboxStates this expectedStates) b = Inr ()) =
      (result (getCheckboxStates this) b = Inr expectedStates)) \<and>
   (\<forall>actual. result (getCheckboxStates this) b = Inr actual \<and> actual \<noteq> expectedStates \<longrightarrow>
      result (validateAllCheckboxStates this expectedStates) b = Inl AssertionError) \<and>
   (\<forall>e. result (getCheckboxStates this) b = Inl e \<longrightarrow>
      result (validateAllCheckboxStates this expectedStates) b = Inl e) \<and>
   result (getCheckboxStates (CheckboxesPage_constructor pg)) b =
     Inr (map (\<lambda>h. checked (dom b ! h)) (container_boxes (dom b))) \<and>
   (equals actualStates expectedStates =
      (length actualStates = length expectedStates \<and>
       (\<forall>i<length actualStates. actualStates ! i = expectedStates ! i)))"
proof -
  obtain r b' where g: "getCheckboxStates this b = (r, b')"
    by (cases "getCheckboxStates this b")
  have v: "result (validateAllCheckboxStates this expectedStates) b =
      (case r of Inl e \<Rightarrow> Inl e
       | Inr actual \<Rightarrow> if actual = expectedStates then Inr () else Inl AssertionError)"
    using g
    by (simp add: result_def validateAllCheckboxStates_def await_def expect_toEqual_def
        equals_iff ret_def throw_def split: sum.splits)
  have r: "result (getCheckboxStates this) b = r"
    using g by (simp add: result_def)
  have t: "result (getCheckboxStates (CheckboxesPage_constructor pg)) b =
     Inr (map (\<lambda>h. checked (dom b ! h)) (container_boxes (dom b)))"
    using getCheckboxStates_eq [OF resolve_checkboxes, of b pg]
    by (simp add: result_def container_boxes_checkable)
  have e: "equals actualStates expectedStates =
      (length actualStates = length expectedStates \<and>
       (\<forall>i<length actualStates. actualStates ! i = expectedStates ! i))"
    unfolding equals_iff by (rule list_eq_iff_nth_eq)
  show ?thesis
    unfolding v r using t e by (cases r) auto
qed

lemma container_boxes_example: "container_boxes (checkboxes_page [False, True]) = [1, 2]"
  by (simp add: container_boxes_def checkboxes_constructor resolve.simps
      parse_checkbox parse_container checkboxes_page_def elem_def upt_rec)

text \<open>
  The page with states false, true: the same sequence passes, the sequence in the other
  order and a shorter one fail.
\<close>

theorem validateAllCheckboxStates_iff_states_equal_witness:
  "result (getCheckboxStates (CheckboxesPage_constructor (Page 0)))
     (opened (checkboxes_page [False, True])) = Inr [False, True] \<and>
   result (validateAllCheckboxStates (CheckboxesPage_constructor (Page 0)) [False, True])
     (opened (checkboxes_page [False, True])) = Inr () \<and>
   result (validateAllCheckboxStates (CheckboxesPage_constructor (Page 0)) [True, False])
     (opened (checkboxes_page [False, True])) = Inl AssertionError \<and>
   result (validateAllCheckboxStates (CheckboxesPage_constructor (Page 0)) [False])
     (opened (checkboxes_page [False, True])) = Inl AssertionError"
proof -
  let ?cp = "CheckboxesPage_constructor (Page 0)"
  let ?b = "opened (checkboxes_page [False, True])"
  note v = validateAllCheckboxStates_iff_states_equal [of ?cp _ ?b "Page 0" "[]"]
  have g: "result (getCheckboxStates ?cp) ?b = Inr [False, True]"
    using v [of "[]", THEN conjunct2, THEN conjunct2, THEN conjunct2, THEN conjunct1]
    by (simp add: opened_def container_boxes_example) (simp add: checkboxes_page_def elem_def)
  from v [of "[False, True]", THEN conjunct1] g
  have a: "result (validateAllCheckboxStates ?cp [False, True]) ?b = Inr ()"
    by simp
  from v [of "[True, False]", THEN conjunct2, THEN conjunct1] g
  have b: "result (validateAllCheckboxStates ?cp [True, False]) ?b = Inl AssertionError"
    by simp
  from v [of "[False]", THEN conjunct2, THEN conjunct1] g
  have c: "result (validateAllCheckboxStates ?cp [False]) ?b = Inl AssertionError"
    by simp
  from g a b c show ?thesis by simp
qed

section \<open>CheckboxesPage: checkAll and uncheckAll\<close>

lemma checked_update_same: "checked e = v \<Longrightarrow> e\<lparr>checked := v\<rparr> = e"
  by (cases e) auto

lemma update_checked_fields:
  "tag (e\<lparr>checked := v\<rparr>) = tag e" "type_attr (e\<lparr>checked := v\<rparr>) = type_attr e"
  "checkable (e\<lparr>checked := v\<rparr>) = checkable e" "actionable (e\<lparr>checked := v\<rparr>) = actionable e"
  by (simp_all add: checkable_def actionable_def)

lemma with_states_shape:
  assumes "with_states v H d d'"
  shows "map shape d' = map shape d"
  using assms by (intro nth_equalityI) (auto simp: with_states_def shape_def)

lemma with_states_step:
  assumes h: "h < length d" and rest: "with_states v H (d[h := (d ! h)\<lparr>checked := v\<rparr>]) d'"
  shows "with_states v (insert h H) d d'"
  using assms by (auto simp: with_states_def nth_list_update)

lemma checkAll_loop_eq:
  assumes "resolve (dom b) l = Some hs"
    and "\<forall>h\<in>set hs. checkable (dom b ! h)"
    and "\<forall>k\<in>set ks. k < length hs"
    and "distinct ks"
  shows "\<exists>b'. checkAll_loop (map (Nth l) ks) b =
       (if list_all (\<lambda>k. checked (dom b ! (hs ! k)) \<or> actionable (dom b ! (hs ! k))) ks
        then Inr () else Inl TimeoutError, b') \<and>
     with_states True
       ((\<lambda>k. hs ! k) ` set (takeWhile (\<lambda>k. checked (dom b ! (hs ! k)) \<or> actionable (dom b ! (hs ! k))) ks))
       (dom b) (dom b') \<and>
     calls b' = calls b @
       concat (map (\<lambda>k. IsChecked (Nth l k) #
                 (if checked (dom b ! (hs ! k)) then [] else [Check (Nth l k) (Some 10000)]))
         (take (Suc (length (takeWhile (\<lambda>k. checked (dom b ! (hs ! k)) \<or> actionable (dom b ! (hs ! k))) ks))) ks))"
  using assms
proof (induction ks arbitrary: b)
  case Nil
  then show ?case by (simp add: ret_def with_states_def)
next
  case (Cons k ks)
  let ?h = "hs ! k"
  let ?d2 = "(dom b)[?h := (dom b ! ?h)\<lparr>checked := True\<rparr>]"
  from Cons.prems have k: "k < length hs" by simp
  from Cons.prems(1) have sound: "distinct hs" "\<forall>h\<in>set hs. h < length (dom b)"
    using resolve_sound by blast+
  from k sound have h: "?h < length (dom b)" by simp
  from k Cons.prems have el: "checkable (dom b ! ?h)" by simp_all
  from k Cons.prems have one: "resolve (dom b) (Nth l k) = Some [?h]"
    by (simp add: resolve_Nth)
  define b1 where "b1 = b\<lparr>calls := calls b @ [IsChecked (Nth l k)]\<rparr>"
  have d1: "dom b1 = dom b" and c1: "calls b1 = calls b @ [IsChecked (Nth l k)]"
    by (simp_all add: b1_def)
  have s1: "locator_isChecked (Nth l k) b = (Inr (checked (dom b ! ?h)), b1)"
    by (simp add: locator_isChecked_one [OF one] el b1_def)
  have one1: "resolve (dom b1) (Nth l k) = Some [?h]"
    using one by (simp add: d1)
  show ?case
  proof (cases "checked (dom b ! (hs ! k)) \<or> actionable (dom b ! (hs ! k))")
    case False
    define bf where "bf = b1\<lparr>calls := calls b1 @ [Check (Nth l k) (Some 10000)]\<rparr>"
    from False el have "check (Loc (Nth l k)) \<lparr>timeout = None\<rparr> b1 = (Inl TimeoutError, bf)"
      by (simp add: check_def Let_def priv_getLocator_def default_to_def
          locator_check_one [OF one1] d1 bf_def)
    with False s1 have "checkAll_loop (map (Nth l) (k # ks)) b = (Inl TimeoutError, bf)"
      by (simp add: await_def)
    moreover have "with_states True {} (dom b) (dom bf)"
      by (simp add: with_states_def bf_def d1)
    moreover have "calls bf = calls b @ [IsChecked (Nth l k), Check (Nth l k) (Some 10000)]"
      by (simp add: bf_def c1)
    ultimately show ?thesis
      using False by (intro exI [of _ bf]) simp
  next
    case True
    obtain b2 where s2: "(if \<not> checked (dom b ! ?h) then check (Loc (Nth l k)) \<lparr>timeout = None\<rparr>
                          else ret ()) b1 = (Inr (), b2)"
      and d2: "dom b2 = ?d2"
      and c2: "calls b2 = calls b1 @
          (if \<not> checked (dom b ! ?h) then [Check (Nth l k) (Some 10000)] else [])"
    proof (cases "\<not> checked (dom b ! ?h)")
      case False
      then have "?d2 = dom b"
        by (simp add: checked_update_same)
      with False that [of b1] show ?thesis
        by (simp add: ret_def d1)
    next
      case need: True
      with True have "actionable (dom b ! ?h)"
        by simp
      with need el that [of "b1\<lparr>dom := ?d2, calls := calls b1 @ [Check (Nth l k) (Some 10000)]\<rparr>"]
      show ?thesis
        by (simp add: check_def Let_def priv_getLocator_def default_to_def
            locator_check_one [OF one1] d1)
    qed
    have step: "checkAll_loop (map (Nth l) (k # ks)) b = checkAll_loop (map (Nth l) ks) b2"
      using s1 s2 by (simp add: await_def)
    have r2: "resolve (dom b2) l = Some hs"
      using Cons.prems(1) by (simp add: d2 resolve_checked)
    have same: "dom b2 ! i = dom b ! i" if "i \<noteq> ?h" for i
      using that by (simp add: d2)
    have el2: "\<forall>x\<in>set hs. checkable (dom b2 ! x)"
    proof
      fix x assume x: "x \<in> set hs"
      show "checkable (dom b2 ! x)"
      proof (cases "x = ?h")
        case True
        with h el show ?thesis
          by (simp add: d2 update_checked_fields)
      next
        case False
        with x Cons.prems(2) show ?thesis
          by (simp add: same)
      qed
    qed
    from Cons.prems have ks: "\<forall>k\<in>set ks. k < length hs" "distinct ks" "k \<notin> set ks"
      by simp_all
    have other: "hs ! k' \<noteq> ?h" if "k' \<in> set ks" for k'
      using that ks k sound(1) by (auto simp: nth_eq_iff_index_eq)
    have okeq: "(checked (dom b2 ! (hs ! k')) \<or> actionable (dom b2 ! (hs ! k'))) =
        (checked (dom b ! (hs ! k')) \<or> actionable (dom b ! (hs ! k')))"
      if "k' \<in> set ks" for k'
      using that by (simp only: same [OF other])
    have tw: "takeWhile (\<lambda>k. checked (dom b2 ! (hs ! k)) \<or> actionable (dom b2 ! (hs ! k))) ks =
        takeWhile (\<lambda>k. checked (dom b ! (hs ! k)) \<or> actionable (dom b ! (hs ! k))) ks"
      by (intro takeWhile_cong refl okeq)
    have la: "list_all (\<lambda>k. checked (dom b2 ! (hs ! k)) \<or> actionable (dom b2 ! (hs ! k))) ks =
        list_all (\<lambda>k. checked (dom b ! (hs ! k)) \<or> actionable (dom b ! (hs ! k))) ks"
      unfolding list_all_iff by (intro ball_cong refl okeq)
    have st: "map (\<lambda>k. IsChecked (Nth l k) #
                 (if checked (dom b2 ! (hs ! k)) then [] else [Check (Nth l k) (Some 10000)])) (take n ks) =
        map (\<lambda>k. IsChecked (Nth l k) #
                 (if checked (dom b ! (hs ! k)) then [] else [Check (Nth l k) (Some 10000)])) (take n ks)" for n
      by (rule map_cong) (auto simp: same other dest: in_set_takeD)
    from Cons.IH [OF r2 el2 ks(1,2)]
    obtain b' where loop: "checkAll_loop (map (Nth l) ks) b2 =
         (if list_all (\<lambda>k. checked (dom b ! (hs ! k)) \<or> actionable (dom b ! (hs ! k))) ks
          then Inr () else Inl TimeoutError, b')"
      and ws: "with_states True
         ((\<lambda>k. hs ! k) ` set (takeWhile (\<lambda>k. checked (dom b ! (hs ! k)) \<or> actionable (dom b ! (hs ! k))) ks))
         (dom b2) (dom b')"
      and cs: "calls b' = calls b2 @
         concat (map (\<lambda>k. IsChecked (Nth l k) #
                 (if checked (dom b ! (hs ! k)) then [] else [Check (Nth l k) (Some 10000)]))
           (take (Suc (length (takeWhile (\<lambda>k. checked (dom b ! (hs ! k)) \<or> actionable (dom b ! (hs ! k))) ks))) ks))"
      unfolding tw la st by blast
    from cs c2 c1 True have calls: "calls b' = calls b @
         concat (map (\<lambda>k. IsChecked (Nth l k) #
                 (if checked (dom b ! (hs ! k)) then [] else [Check (Nth l k) (Some 10000)]))
           (take (Suc (length (takeWhile (\<lambda>k. checked (dom b ! (hs ! k)) \<or> actionable (dom b ! (hs ! k))) (k # ks)))) (k # ks)))"
      by simp
    from ws have "with_states True
         (insert ?h ((\<lambda>k. hs ! k) ` set (takeWhile (\<lambda>k. checked (dom b ! (hs ! k)) \<or> actionable (dom b ! (hs ! k))) ks)))
         (dom b) (dom b')"
      unfolding d2 by (rule with_states_step [OF h])
    with step loop calls True show ?thesis
      by simp
  qed
qed

lemma uncheckAll_loop_eq:
  assumes "resolve (dom b) l = Some hs"
    and "\<forall>h\<in>set hs. checkable (dom b ! h) \<and> type_attr (dom b ! h) \<noteq> ''radio''"
    and "\<forall>k\<in>set ks. k < length hs"
    and "distinct ks"
  shows "\<exists>b'. uncheckAll_loop (map (Nth l) ks) b =
       (if list_all (\<lambda>k. \<not> checked (dom b ! (hs ! k)) \<or> actionable (dom b ! (hs ! k))) ks
        then Inr () else Inl TimeoutError, b') \<and>
     with_states False
       ((\<lambda>k. hs ! k) ` set (takeWhile (\<lambda>k. \<not> checked (dom b ! (hs ! k)) \<or> actionable (dom b ! (hs ! k))) ks))
       (dom b) (dom b') \<and>
     calls b' = calls b @
       concat (map (\<lambda>k. IsChecked (Nth l k) #
                 (if checked (dom b ! (hs ! k)) then [Uncheck (Nth l k) None] else []))
         (take (Suc (length (takeWhile (\<lambda>k. \<not> checked (dom b ! (hs ! k)) \<or> actionable (dom b ! (hs ! k))) ks))) ks))"
  using assms
proof (induction ks arbitrary: b)
  case Nil
  then show ?case by (simp add: ret_def with_states_def)
next
  case (Cons k ks)
  let ?h = "hs ! k"
  let ?d2 = "(dom b)[?h := (dom b ! ?h)\<lparr>checked := False\<rparr>]"
  from Cons.prems have k: "k < length hs" by simp
  from Cons.prems(1) have sound: "distinct hs" "\<forall>h\<in>set hs. h < length (dom b)"
    using resolve_sound by blast+
  from k sound have h: "?h < length (dom b)" by simp
  from k Cons.prems have el: "checkable (dom b ! ?h)"
    "type_attr (dom b ! ?h) \<noteq> ''radio''" by simp_all
  from k Cons.prems have one: "resolve (dom b) (Nth l k) = Some [?h]"
    by (simp add: resolve_Nth)
  define b1 where "b1 = b\<lparr>calls := calls b @ [IsChecked (Nth l k)]\<rparr>"
  have d1: "dom b1 = dom b" and c1: "calls b1 = calls b @ [IsChecked (Nth l k)]"
    by (simp_all add: b1_def)
  have s1: "locator_isChecked (Nth l k) b = (Inr (checked (dom b ! ?h)), b1)"
    by (simp add: locator_isChecked_one [OF one] el b1_def)
  have one1: "resolve (dom b1) (Nth l k) = Some [?h]"
    using one by (simp add: d1)
  show ?case
  proof (cases "\<not> checked (dom b ! (hs ! k)) \<or> actionable (dom b ! (hs ! k))")
    case False
    define bf where "bf = b1\<lparr>calls := calls b1 @ [Uncheck (Nth l k) None]\<rparr>"
    from False el have "uncheck (Loc (Nth l k)) b1 = (Inl TimeoutError, bf)"
      by (simp add: uncheck_def Let_def priv_getLocator_def
          locator_uncheck_one [OF one1] d1 bf_def)
    with False s1 have "uncheckAll_loop (map (Nth l) (k # ks)) b = (Inl TimeoutError, bf)"
      by (simp add: await_def)
    moreover have "with_states False {} (dom b) (dom bf)"
      by (simp add: with_states_def bf_def d1)
    moreover have "calls bf = calls b @ [IsChecked (Nth l k), Uncheck (Nth l k) None]"
      by (simp add: bf_def c1)
    ultimately show ?thesis
      using False by (intro exI [of _ bf]) simp
  next
    case True
    obtain b2 where s2: "(if checked (dom b ! ?h) then uncheck (Loc (Nth l k))
                          else ret ()) b1 = (Inr (), b2)"
      and d2: "dom b2 = ?d2"
      and c2: "calls b2 = calls b1 @
          (if checked (dom b ! ?h) then [Uncheck (Nth l k) None] else [])"
    proof (cases "checked (dom b ! ?h)")
      case False
      then have "?d2 = dom b"
        by (simp add: checked_update_same)
      with False that [of b1] show ?thesis
        by (simp add: ret_def d1)
    next
      case need: True
      with True have "actionable (dom b ! ?h)"
        by simp
      with need el that [of "b1\<lparr>dom := ?d2, calls := calls b1 @ [Uncheck (Nth l k) None]\<rparr>"]
      show ?thesis
        by (simp add: uncheck_def Let_def priv_getLocator_def
            locator_uncheck_one [OF one1] d1)
    qed
    have step: "uncheckAll_loop (map (Nth l) (k # ks)) b = uncheckAll_loop (map (Nth l) ks) b2"
      using s1 s2 by (simp add: await_def)
    have r2: "resolve (dom b2) l = Some hs"
      using Cons.prems(1) by (simp add: d2 resolve_checked)
    have same: "dom b2 ! i = dom b ! i" if "i \<noteq> ?h" for i
      using that by (simp add: d2)
    have el2: "\<forall>x\<in>set hs. checkable (dom b2 ! x) \<and> type_attr (dom b2 ! x) \<noteq> ''radio''"
    proof
      fix x assume x: "x \<in> set hs"
      show "checkable (dom b2 ! x) \<and> type_attr (dom b2 ! x) \<noteq> ''radio''"
      proof (cases "x = ?h")
        case True
        with h el show ?thesis
          by (simp add: d2 update_checked_fields)
      next
        case False
        with x Cons.prems(2) show ?thesis
          by (simp add: same)
      qed
    qed
    from Cons.prems have ks: "\<forall>k\<in>set ks. k < length hs" "distinct ks" "k \<notin> set ks"
      by simp_all
    have other: "hs ! k' \<noteq> ?h" if "k' \<in> set ks" for k'
      using that ks k sound(1) by (auto simp: nth_eq_iff_index_eq)
    have okeq: "(\<not> checked (dom b2 ! (hs ! k')) \<or> actionable (dom b2 ! (hs ! k'))) =
        (\<not> checked (dom b ! (hs ! k')) \<or> actionable (dom b ! (hs ! k')))"
      if "k' \<in> set ks" for k'
      using that by (simp only: same [OF other])
    have tw: "takeWhile (\<lambda>k. \<not> checked (dom b2 ! (hs ! k)) \<or> actionable (dom b2 ! (hs ! k))) ks =
        takeWhile (\<lambda>k. \<not> checked (dom b ! (hs ! k)) \<or> actionable (dom b ! (hs ! k))) ks"
      by (intro takeWhile_cong refl okeq)
    have la: "list_all (\<lambda>k. \<not> checked (dom b2 ! (hs ! k)) \<or> actionable (dom b2 ! (hs ! k))) ks =
        list_all (\<lambda>k. \<not> checked (dom b ! (hs ! k)) \<or> actionable (dom b ! (hs ! k))) ks"
      unfolding list_all_iff by (intro ball_cong refl okeq)
    have st: "map (\<lambda>k. IsChecked (Nth l k) #
                 (if checked (dom b2 ! (hs ! k)) then [Uncheck (Nth l k) None] else [])) (take n ks) =
        map (\<lambda>k. IsChecked (Nth l k) #
                 (if checked (dom b ! (hs ! k)) then [Uncheck (Nth l k) None] else [])) (take n ks)" for n
      by (rule map_cong) (auto simp: same other dest: in_set_takeD)
    from Cons.IH [OF r2 el2 ks(1,2)]
    obtain b' where loop: "uncheckAll_loop (map (Nth l) ks) b2 =
         (if list_all (\<lambda>k. \<not> checked (dom b ! (hs ! k)) \<or> actionable (dom b ! (hs ! k))) ks
          then Inr () else Inl TimeoutError, b')"
      and ws: "with_states False
         ((\<lambda>k. hs ! k) ` set (takeWhile (\<lambda>k. \<not> checked (dom b ! (hs ! k)) \<or> actionable (dom b ! (hs ! k))) ks))
         (dom b2) (dom b')"
      and cs: "calls b' = calls b2 @
         concat (map (\<lambda>k. IsChecked (Nth l k) #
                 (if checked (dom b ! (hs ! k)) then [Uncheck (Nth l k) None] else []))
           (take (Suc (length (takeWhile (\<lambda>k. \<not> checked (dom b ! (hs ! k)) \<or> actionable (dom b ! (hs ! k))) ks))) ks))"
      unfolding tw la st by blast
    from cs c2 c1 True have calls: "calls b' = calls b @
         concat (map (\<lambda>k. IsChecked (Nth l k) #
                 (if checked (dom b ! (hs ! k)) then [Uncheck (Nth l k) None] else []))
           (take (Suc (length (takeWhile (\<lambda>k. \<not> checked (dom b ! (hs ! k)) \<or> actionable (dom b ! (hs ! k))) (k # ks)))) (k # ks)))"
      by simp
    from ws have "with_states False
         (insert ?h ((\<lambda>k. hs ! k) ` set (takeWhile (\<lambda>k. \<not> checked (dom b ! (hs ! k)) \<or> actionable (dom b ! (hs ! k))) ks)))
         (dom b) (dom b')"
      unfolding d2 by (rule with_states_step [OF h])
    with step loop calls True show ?thesis
      by simp
  qed
qed

lemma with_states_checked_at:
  "with_states v (set hs) d d' \<Longrightarrow> d' = checked_at v hs d"
  by (intro nth_equalityI) (simp_all add: with_states_def checked_at_def)

text \<open>The elements of a list before the first one that fails a condition, by position.\<close>

lemma takeWhile_nth_upt:
  "takeWhile (\<lambda>k. P (hs ! k)) [0..<length hs] = [0..<length (takeWhile P hs)]"
proof -
  let ?xs = "[0..<length hs]"
  let ?Q = "\<lambda>k. P (hs ! k)"
  have "takeWhile P (map (\<lambda>k. hs ! k) ?xs) = map (\<lambda>k. hs ! k) (takeWhile ?Q ?xs)"
    by (simp add: takeWhile_map comp_def)
  then have len: "length (takeWhile P hs) = length (takeWhile ?Q ?xs)"
    by (simp add: map_nth)
  have le: "length (takeWhile ?Q ?xs) \<le> length hs"
    using length_takeWhile_le [of ?Q ?xs] by simp
  have "takeWhile ?Q ?xs = take (length (takeWhile ?Q ?xs)) ?xs"
    by (rule takeWhile_eq_take)
  also from le have "\<dots> = [0..<length (takeWhile ?Q ?xs)]"
    by (simp add: take_upt)
  finally show ?thesis
    by (simp add: len)
qed

lemma length_takeWhile_all: "(length (takeWhile P xs) = length xs) = list_all P xs"
proof (induction xs)
  case Nil
  show ?case by simp
next
  case (Cons x xs)
  have "length (takeWhile P xs) \<le> length xs"
    by (rule length_takeWhile_le)
  with Cons show ?case by auto
qed

lemma list_all_nth_upt:
  "list_all (\<lambda>k. P (hs ! k)) [0..<length hs] = (length (takeWhile P hs) = length hs)"
  by (auto simp: length_takeWhile_all list_all_iff all_set_conv_all_nth)

text \<open>Reading the states after all enumerated checkboxes have been set to one state.\<close>

lemma all_then_read:
  assumes r: "resolve (dom b) (checkboxes this) = Some hs"
    and el: "\<forall>h\<in>set hs. checkable (dom b ! h)"
    and ws: "with_states v (set hs) (dom b) (dom b')"
  shows "result (getCheckboxStates this) b' = Inr (replicate (length hs) v)"
proof -
  from r have sound: "\<forall>h\<in>set hs. h < length (dom b)"
    using resolve_sound by blast
  have r': "resolve (dom b') (checkboxes this) = Some hs"
    using r resolve_shape [OF with_states_shape [OF ws]] by simp
  have st: "dom b' ! h = (dom b ! h)\<lparr>checked := v\<rparr>" if "h \<in> set hs" for h
    using that ws sound by (simp add: with_states_def)
  have el': "\<forall>h\<in>set hs. checkable (dom b' ! h)"
    using el by (simp add: st update_checked_fields)
  have "map (\<lambda>h. checked (dom b' ! h)) hs = replicate (length hs) v"
    by (simp add: st map_replicate_const cong: map_cong)
  with getCheckboxStates_eq [OF r' el'] show ?thesis
    by (simp add: result_def)
qed

text \<open>
  The whole of \<open>checkAll\<close> and of \<open>uncheckAll\<close>: they go through the checkboxes in
  document order and stop at the first one on which \<^verbatim>\<open>check\<close> (\<^verbatim>\<open>uncheck\<close>) times out.
\<close>

lemma checkAll_eq:
  assumes r: "resolve (dom b) (checkboxes this) = Some hs"
    and el: "\<forall>h\<in>set hs. checkable (dom b ! h)"
  defines "n \<equiv> length (takeWhile (\<lambda>h. checked (dom b ! h) \<or> actionable (dom b ! h)) hs)"
  shows "\<exists>b'. checkAll this b = (if n = length hs then Inr () else Inl TimeoutError, b') \<and>
     dom b' = checked_at True (take n hs) (dom b) \<and>
     calls b' = calls b @ All (checkboxes this) #
       concat (map (\<lambda>k. IsChecked (Nth (checkboxes this) k) #
                 (if checked (dom b ! (hs ! k)) then []
                  else [Check (Nth (checkboxes this) k) (Some 10000)])) (take (Suc n) [0..<length hs])) \<and>
     (n = length hs \<longrightarrow>
        result (getCheckboxStates this) b' = Inr (replicate (length hs) True))"
proof -
  let ?l = "checkboxes this"
  define b1 where "b1 = b\<lparr>calls := calls b @ [All ?l]\<rparr>"
  have d1: "dom b1 = dom b" and c1: "calls b1 = calls b @ [All ?l]"
    by (simp_all add: b1_def)
  have a: "locator_all ?l b = (Inr (map (Nth ?l) [0..<length hs]), b1)"
    using r by (simp add: locator_all_def await_def invoke_def b1_def)
  have tw: "takeWhile (\<lambda>k. checked (dom b ! (hs ! k)) \<or> actionable (dom b ! (hs ! k))) [0..<length hs] = [0..<n]"
    unfolding n_def by (rule takeWhile_nth_upt)
  have la: "list_all (\<lambda>k. checked (dom b ! (hs ! k)) \<or> actionable (dom b ! (hs ! k))) [0..<length hs] = (n = length hs)"
    unfolding n_def by (rule list_all_nth_upt)
  have n: "n \<le> length hs"
    unfolding n_def by (rule length_takeWhile_le)
  then have im: "(\<lambda>k. hs ! k) ` set [0..<n] = set (take n hs)"
    using nth_image [of n hs] by simp
  from checkAll_loop_eq [of b1 ?l hs "[0..<length hs]"] r el
  obtain b' where loop: "checkAll_loop (map (Nth ?l) [0..<length hs]) b1 =
       (if n = length hs then Inr () else Inl TimeoutError, b')"
    and ws: "with_states True (set (take n hs)) (dom b) (dom b')"
    and cs: "calls b' = calls b1 @
       concat (map (\<lambda>k. IsChecked (Nth ?l k) #
                 (if checked (dom b ! (hs ! k)) then []
                  else [Check (Nth (?l) k) (Some 10000)]))
               (take (Suc n) [0..<length hs]))"
    unfolding d1 tw la im by auto
  from a loop have "checkAll this b = (if n = length hs then Inr () else Inl TimeoutError, b')"
    by (simp add: checkAll_def await_def)
  moreover from ws have "dom b' = checked_at True (take n hs) (dom b)"
    by (rule with_states_checked_at)
  moreover have "result (getCheckboxStates this) b' = Inr (replicate (length hs) True)"
    if "n = length hs"
  proof -
    from that ws have "with_states True (set hs) (dom b) (dom b')"
      by simp
    with el show ?thesis
      by (intro all_then_read [OF r]) simp_all
  qed
  ultimately show ?thesis using cs c1 by simp
qed

lemma uncheckAll_eq:
  assumes r: "resolve (dom b) (checkboxes this) = Some hs"
    and el: "\<forall>h\<in>set hs. checkable (dom b ! h) \<and> type_attr (dom b ! h) \<noteq> ''radio''"
  defines "n \<equiv> length (takeWhile (\<lambda>h. \<not> checked (dom b ! h) \<or> actionable (dom b ! h)) hs)"
  shows "\<exists>b'. uncheckAll this b = (if n = length hs then Inr () else Inl TimeoutError, b') \<and>
     dom b' = checked_at False (take n hs) (dom b) \<and>
     calls b' = calls b @ All (checkboxes this) #
       concat (map (\<lambda>k. IsChecked (Nth (checkboxes this) k) #
                 (if checked (dom b ! (hs ! k)) then [Uncheck (Nth (checkboxes this) k) None]
                  else [])) (take (Suc n) [0..<length hs])) \<and>
     (n = length hs \<longrightarrow>
        result (getCheckboxStates this) b' = Inr (replicate (length hs) False))"
proof -
  let ?l = "checkboxes this"
  define b1 where "b1 = b\<lparr>calls := calls b @ [All ?l]\<rparr>"
  have d1: "dom b1 = dom b" and c1: "calls b1 = calls b @ [All ?l]"
    by (simp_all add: b1_def)
  have a: "locator_all ?l b = (Inr (map (Nth ?l) [0..<length hs]), b1)"
    using r by (simp add: locator_all_def await_def invoke_def b1_def)
  have tw: "takeWhile (\<lambda>k. \<not> checked (dom b ! (hs ! k)) \<or> actionable (dom b ! (hs ! k))) [0..<length hs] = [0..<n]"
    unfolding n_def by (rule takeWhile_nth_upt)
  have la: "list_all (\<lambda>k. \<not> checked (dom b ! (hs ! k)) \<or> actionable (dom b ! (hs ! k))) [0..<length hs] = (n = length hs)"
    unfolding n_def by (rule list_all_nth_upt)
  have n: "n \<le> length hs"
    unfolding n_def by (rule length_takeWhile_le)
  then have im: "(\<lambda>k. hs ! k) ` set [0..<n] = set (take n hs)"
    using nth_image [of n hs] by simp
  from uncheckAll_loop_eq [of b1 ?l hs "[0..<length hs]"] r el
  obtain b' where loop: "uncheckAll_loop (map (Nth ?l) [0..<length hs]) b1 =
       (if n = length hs then Inr () else Inl TimeoutError, b')"
    and ws: "with_states False (set (take n hs)) (dom b) (dom b')"
    and cs: "calls b' = calls b1 @
       concat (map (\<lambda>k. IsChecked (Nth ?l k) #
                 (if checked (dom b ! (hs ! k)) then [Uncheck (Nth (?l) k) None]
                  else []))
               (take (Suc n) [0..<length hs]))"
    unfolding d1 tw la im by auto
  from a loop have "uncheckAll this b = (if n = length hs then Inr () else Inl TimeoutError, b')"
    by (simp add: uncheckAll_def await_def)
  moreover from ws have "dom b' = checked_at False (take n hs) (dom b)"
    by (rule with_states_checked_at)
  moreover have "result (getCheckboxStates this) b' = Inr (replicate (length hs) False)"
    if "n = length hs"
  proof -
    from that ws have "with_states False (set hs) (dom b) (dom b')"
      by simp
    with el show ?thesis
      by (intro all_then_read [OF r]) simp_all
  qed
  ultimately show ?thesis using cs c1 by simp
qed

lemma checked_at_changes:
  assumes "i < length d"
  shows "(checked_at v hs d ! i \<noteq> d ! i) = (i \<in> set hs \<and> checked (d ! i) \<noteq> v)"
proof -
  have "((d ! i)\<lparr>checked := v\<rparr> = d ! i) = (checked (d ! i) = v)"
    by (cases "d ! i") auto
  with assms show ?thesis
    by (auto simp: checked_at_def)
qed

lemma container_boxes_types:
  assumes "h \<in> set (container_boxes d)"
  shows "checkable (d ! h)" "type_attr (d ! h) \<noteq> ''radio''"
  using assms
  by (simp_all add: container_boxes_def checkboxes_constructor resolve.simps
      parse_checkbox parse_container checkable_def)

text \<open>
  \<^verbatim>\<open>checkAll\<close> and \<^verbatim>\<open>uncheckAll\<close> of the page object, on any page: what they return,
  the page and the calls.
\<close>

lemma checkAll_page:
  fixes b :: browser
  defines "hs \<equiv> container_boxes (dom b)"
  defines "n \<equiv> length (takeWhile (\<lambda>h. checked (dom b ! h) \<or> actionable (dom b ! h)) hs)"
  shows "\<exists>b'. checkAll (CheckboxesPage_constructor pg) b =
       (if n = length hs then Inr () else Inl TimeoutError, b') \<and>
     dom b' = checked_at True (take n hs) (dom b) \<and>
     calls b' = calls b @ All (checkboxes (CheckboxesPage_constructor pg)) #
       concat (map (\<lambda>k. IsChecked (Nth (checkboxes (CheckboxesPage_constructor pg)) k) #
                 (if checked (dom b ! (hs ! k)) then []
                  else [Check (Nth (checkboxes (CheckboxesPage_constructor pg)) k) (Some 10000)]))
               (take (Suc n) [0..<length hs])) \<and>
     (n = length hs \<longrightarrow>
        result (getCheckboxStates (CheckboxesPage_constructor pg)) b' =
          Inr (replicate (length hs) True))"
  unfolding n_def hs_def
  by (rule checkAll_eq [OF resolve_checkboxes]) (simp add: container_boxes_types)

lemma uncheckAll_page:
  fixes b :: browser
  defines "hs \<equiv> container_boxes (dom b)"
  defines "n \<equiv> length (takeWhile (\<lambda>h. \<not> checked (dom b ! h) \<or> actionable (dom b ! h)) hs)"
  shows "\<exists>b'. uncheckAll (CheckboxesPage_constructor pg) b =
       (if n = length hs then Inr () else Inl TimeoutError, b') \<and>
     dom b' = checked_at False (take n hs) (dom b) \<and>
     calls b' = calls b @ All (checkboxes (CheckboxesPage_constructor pg)) #
       concat (map (\<lambda>k. IsChecked (Nth (checkboxes (CheckboxesPage_constructor pg)) k) #
                 (if checked (dom b ! (hs ! k))
                  then [Uncheck (Nth (checkboxes (CheckboxesPage_constructor pg)) k) None]
                  else []))
               (take (Suc n) [0..<length hs])) \<and>
     (n = length hs \<longrightarrow>
        result (getCheckboxStates (CheckboxesPage_constructor pg)) b' =
          Inr (replicate (length hs) False))"
  unfolding n_def hs_def
  by (rule uncheckAll_eq [OF resolve_checkboxes]) (simp add: container_boxes_types)

lemma container_boxes_hidden: "container_boxes (hidden_box_page c) = [1, 2]"
  by (simp add: container_boxes_def checkboxes_constructor resolve.simps
      parse_checkbox parse_container hidden_box_page_def elem_def upt_rec)

lemma hidden_box_page_fields:
  "checked (hidden_box_page c ! Suc 0) = False" "actionable (hidden_box_page c ! Suc 0) = True"
  "checked (hidden_box_page c ! 2) = c" "actionable (hidden_box_page c ! 2) = False"
  by (simp_all add: hidden_box_page_def elem_def actionable_def)

lemma checkboxes_page_fields:
  "checked (checkboxes_page [False, True] ! Suc 0) = False"
  "actionable (checkboxes_page [False, True] ! Suc 0) = True"
  "checked (checkboxes_page [False, True] ! 2) = True"
  "actionable (checkboxes_page [False, True] ! 2) = True"
  by (simp_all add: checkboxes_page_def elem_def actionable_def)

lemma checked_at_example:
  "checked_at True [1, 2] (checkboxes_page [False, True]) = checkboxes_page [True, True]"
  "checked_at False [1, 2] (checkboxes_page [False, True]) = checkboxes_page [False, False]"
  by (simp_all add: checked_at_def checkboxes_page_def elem_def)

lemma checked_at_hidden:
  "checked_at True [1] (hidden_box_page False) =
     (hidden_box_page False)[1 := (hidden_box_page False ! 1)\<lparr>checked := True\<rparr>]"
  "checked_at False [1] (hidden_box_page True) = hidden_box_page True"
  "checked_at False [1, 2] (hidden_box_page False) = hidden_box_page False"
  by (simp_all add: checked_at_def hidden_box_page_def elem_def)

lemma upt_two: "[0..<length [1::nat, 2]] = [0, 1]"
  by (simp add: upt_rec)

text \<open>
  Claim C2 says that, for any starting states, \<^verbatim>\<open>checkAll\<close> flips the unchecked
  checkboxes and \<^verbatim>\<open>getCheckboxStates\<close> then returns true for all of them. On the page
  with two unchecked checkboxes of which the second is hidden, \<^verbatim>\<open>checkAll\<close> throws
  \<open>TimeoutError\<close> and leaves the second checkbox unchecked: the states are then true,
  false. In the same way \<^verbatim>\<open>uncheckAll\<close> throws on the page whose hidden checkbox is
  checked, and leaves it checked.
\<close>

theorem checkAll_hidden_box_counterexample:
  "result (getCheckboxStates (CheckboxesPage_constructor (Page 0)))
     (opened (hidden_box_page False)) = Inr [False, False] \<and>
   result (checkAll (CheckboxesPage_constructor (Page 0))) (opened (hidden_box_page False)) =
     Inl TimeoutError \<and>
   result (getCheckboxStates (CheckboxesPage_constructor (Page 0)))
     (opened (page_after (checkAll (CheckboxesPage_constructor (Page 0)))
                (opened (hidden_box_page False)))) = Inr [True, False] \<and>
   result (await (checkAll (CheckboxesPage_constructor (Page 0)))
             (\<lambda>_. getCheckboxStates (CheckboxesPage_constructor (Page 0))))
     (opened (hidden_box_page False)) \<noteq> Inr [True, True] \<and>
   result (getCheckboxStates (CheckboxesPage_constructor (Page 0)))
     (opened (hidden_box_page True)) = Inr [False, True] \<and>
   result (uncheckAll (CheckboxesPage_constructor (Page 0))) (opened (hidden_box_page True)) =
     Inl TimeoutError \<and>
   result (getCheckboxStates (CheckboxesPage_constructor (Page 0)))
     (opened (page_after (uncheckAll (CheckboxesPage_constructor (Page 0)))
                (opened (hidden_box_page True)))) = Inr [False, True] \<and>
   result (await (uncheckAll (CheckboxesPage_constructor (Page 0)))
             (\<lambda>_. getCheckboxStates (CheckboxesPage_constructor (Page 0))))
     (opened (hidden_box_page True)) \<noteq> Inr [False, False]"
proof -
  let ?cp = "CheckboxesPage_constructor (Page 0)"
  let ?F = "opened (hidden_box_page False)"
  let ?T = "opened (hidden_box_page True)"
  have d: "dom ?F = hidden_box_page False" "dom ?T = hidden_box_page True"
    by (simp_all add: opened_def)
  have g: "result (getCheckboxStates ?cp) ?F = Inr [False, False]"
    "result (getCheckboxStates ?cp) ?T = Inr [False, True]"
    unfolding getCheckboxStates_result d container_boxes_hidden
    by (simp_all add: hidden_box_page_fields)
  from checkAll_page [where b = ?F and pg = "Page 0"]
  obtain b1 where c: "checkAll ?cp ?F = (Inl TimeoutError, b1)"
    and cd: "dom b1 = (hidden_box_page False)[1 := (hidden_box_page False ! 1)\<lparr>checked := True\<rparr>]"
    unfolding d container_boxes_hidden
    by (auto simp: hidden_box_page_fields checked_at_hidden [simplified])
  from uncheckAll_page [where b = ?T and pg = "Page 0"]
  obtain b2 where u: "uncheckAll ?cp ?T = (Inl TimeoutError, b2)"
    and ud: "dom b2 = hidden_box_page True"
    unfolding d container_boxes_hidden
    by (auto simp: hidden_box_page_fields checked_at_hidden [simplified])
  define P1 where
    "P1 = (hidden_box_page False)[1 := (hidden_box_page False ! 1)\<lparr>checked := True\<rparr>]"
  have "map shape P1 = map shape (hidden_box_page False)"
    unfolding P1_def by (rule shape_checked)
  then have "resolve P1 l = resolve (hidden_box_page False) l" for l
    by (rule resolve_shape)
  then have cb: "container_boxes P1 = [1, 2]"
    using container_boxes_hidden [of False] by (simp add: container_boxes_def)
  have v1: "checked (P1 ! Suc 0) = True" "checked (P1 ! 2) = False"
    by (simp_all add: P1_def hidden_box_page_def elem_def)
  from c cd have pa: "page_after (checkAll ?cp) ?F = P1"
    by (simp add: page_after_def P1_def)
  have ga: "result (getCheckboxStates ?cp) (opened (page_after (checkAll ?cp) ?F)) =
      Inr [True, False]"
    unfolding pa getCheckboxStates_result
    by (simp add: opened_def cb v1)
  have gb: "result (getCheckboxStates ?cp) (opened (page_after (uncheckAll ?cp) ?T)) =
      Inr [False, True]"
    unfolding getCheckboxStates_result page_after_def u
    by (simp add: opened_def ud container_boxes_hidden hidden_box_page_fields)
  from c have c1: "result (checkAll ?cp) ?F = Inl TimeoutError"
    and c2: "result (await (checkAll ?cp) (\<lambda>_. getCheckboxStates ?cp)) ?F \<noteq> Inr [True, True]"
    by (simp_all add: result_def await_def)
  from u have u1: "result (uncheckAll ?cp) ?T = Inl TimeoutError"
    and u2: "result (await (uncheckAll ?cp) (\<lambda>_. getCheckboxStates ?cp)) ?T \<noteq> Inr [False, False]"
    by (simp_all add: result_def await_def)
  from g ga gb c1 c2 u1 u2 show ?thesis
    by blast
qed

text \<open>
  Claim C2 (amended). \<^verbatim>\<open>checkAll\<close> goes through the enumerated checkboxes in document
  order, reads the state of each and calls \<^verbatim>\<open>check\<close> on it when it is unchecked, and on
  no other. For any starting states in which every unchecked checkbox is visible and
  enabled, it returns, the elements of the page that change are exactly the unchecked
  checkboxes, which become checked, and \<^verbatim>\<open>getCheckboxStates\<close> then returns true for
  every checkbox. Otherwise it throws \<open>TimeoutError\<close> at the first unchecked checkbox
  that is not visible and enabled: the unchecked checkboxes before that one have become
  checked, and from that one on the page is as it was. \<^verbatim>\<open>uncheckAll\<close> is the mirror
  image: it calls \<^verbatim>\<open>uncheck\<close> on exactly the checked ones, returns when every checked
  checkbox is visible and enabled, and \<^verbatim>\<open>getCheckboxStates\<close> then returns false for
  every checkbox. Below, \<open>n\<close> and \<open>m\<close> are the numbers of checkboxes before the one at
  which \<^verbatim>\<open>checkAll\<close> and \<^verbatim>\<open>uncheckAll\<close> stop, or the number of all checkboxes.
\<close>

theorem checkAll_uncheckAll_set_all:
  "(let this = CheckboxesPage_constructor pg;
        hs = container_boxes (dom b);
        l = checkboxes this;
        n = length (takeWhile (\<lambda>h. checked (dom b ! h) \<or> actionable (dom b ! h)) hs);
        m = length (takeWhile (\<lambda>h. \<not> checked (dom b ! h) \<or> actionable (dom b ! h)) hs)
    in (n = length hs) = (\<forall>h\<in>set hs. \<not> checked (dom b ! h) \<longrightarrow> actionable (dom b ! h)) \<and>
       result (checkAll this) b = (if n = length hs then Inr () else Inl TimeoutError) \<and>
       page_after (checkAll this) b = checked_at True (take n hs) (dom b) \<and>
       (\<forall>i<length (dom b).
          (page_after (checkAll this) b ! i \<noteq> dom b ! i) =
          (i \<in> set (take n hs) \<and> \<not> checked (dom b ! i))) \<and>
       issued (checkAll this) b =
         All l # concat (map (\<lambda>k. IsChecked (Nth l k) #
                   (if checked (dom b ! (hs ! k)) then [] else [Check (Nth l k) (Some 10000)]))
                 (take (Suc n) [0..<length hs])) \<and>
       result (await (checkAll this) (\<lambda>_. getCheckboxStates this)) b =
         (if n = length hs then Inr (replicate (length hs) True) else Inl TimeoutError) \<and>
       (m = length hs) = (\<forall>h\<in>set hs. checked (dom b ! h) \<longrightarrow> actionable (dom b ! h)) \<and>
       result (uncheckAll this) b = (if m = length hs then Inr () else Inl TimeoutError) \<and>
       page_after (uncheckAll this) b = checked_at False (take m hs) (dom b) \<and>
       (\<forall>i<length (dom b).
          (page_after (uncheckAll this) b ! i \<noteq> dom b ! i) =
          (i \<in> set (take m hs) \<and> checked (dom b ! i))) \<and>
       issued (uncheckAll this) b =
         All l # concat (map (\<lambda>k. IsChecked (Nth l k) #
                   (if checked (dom b ! (hs ! k)) then [Uncheck (Nth l k) None] else []))
                 (take (Suc m) [0..<length hs])) \<and>
       result (await (uncheckAll this) (\<lambda>_. getCheckboxStates this)) b =
         (if m = length hs then Inr (replicate (length hs) False) else Inl TimeoutError))"
proof -
  let ?cp = "CheckboxesPage_constructor pg"
  let ?hs = "container_boxes (dom b)"
  let ?n = "length (takeWhile (\<lambda>h. checked (dom b ! h) \<or> actionable (dom b ! h)) ?hs)"
  let ?m = "length (takeWhile (\<lambda>h. \<not> checked (dom b ! h) \<or> actionable (dom b ! h)) ?hs)"
  have n: "(?n = length ?hs) = (\<forall>h\<in>set ?hs. \<not> checked (dom b ! h) \<longrightarrow> actionable (dom b ! h))"
    unfolding length_takeWhile_all by (auto simp: list_all_iff)
  have m: "(?m = length ?hs) = (\<forall>h\<in>set ?hs. checked (dom b ! h) \<longrightarrow> actionable (dom b ! h))"
    unfolding length_takeWhile_all by (auto simp: list_all_iff)
  from checkAll_page [where b = b and pg = pg]
  obtain b1 where c: "checkAll ?cp b = (if ?n = length ?hs then Inr () else Inl TimeoutError, b1)"
    and cd: "dom b1 = checked_at True (take ?n ?hs) (dom b)"
    and cc: "calls b1 = calls b @ All (checkboxes ?cp) #
       concat (map (\<lambda>k. IsChecked (Nth (checkboxes ?cp) k) #
                 (if checked (dom b ! (?hs ! k)) then []
                  else [Check (Nth (checkboxes ?cp) k) (Some 10000)]))
               (take (Suc ?n) [0..<length ?hs]))"
    and cr: "?n = length ?hs \<longrightarrow>
       result (getCheckboxStates ?cp) b1 = Inr (replicate (length ?hs) True)"
    by blast
  from uncheckAll_page [where b = b and pg = pg]
  obtain b2 where u: "uncheckAll ?cp b = (if ?m = length ?hs then Inr () else Inl TimeoutError, b2)"
    and ud: "dom b2 = checked_at False (take ?m ?hs) (dom b)"
    and uc: "calls b2 = calls b @ All (checkboxes ?cp) #
       concat (map (\<lambda>k. IsChecked (Nth (checkboxes ?cp) k) #
                 (if checked (dom b ! (?hs ! k))
                  then [Uncheck (Nth (checkboxes ?cp) k) None]
                  else []))
               (take (Suc ?m) [0..<length ?hs]))"
    and ur: "?m = length ?hs \<longrightarrow>
       result (getCheckboxStates ?cp) b2 = Inr (replicate (length ?hs) False)"
    by blast
  have c1: "result (checkAll ?cp) b = (if ?n = length ?hs then Inr () else Inl TimeoutError)"
    and c2: "page_after (checkAll ?cp) b = checked_at True (take ?n ?hs) (dom b)"
    using c cd by (simp_all add: result_def page_after_def)
  have c4: "result (await (checkAll ?cp) (\<lambda>_. getCheckboxStates ?cp)) b =
         (if ?n = length ?hs then Inr (replicate (length ?hs) True) else Inl TimeoutError)"
    using c cr by (simp add: result_def await_def)
  have c3: "issued (checkAll ?cp) b = All (checkboxes ?cp) #
       concat (map (\<lambda>k. IsChecked (Nth (checkboxes ?cp) k) #
                 (if checked (dom b ! (?hs ! k)) then []
                  else [Check (Nth (checkboxes ?cp) k) (Some 10000)]))
               (take (Suc ?n) [0..<length ?hs]))"
    using c cc by (simp add: issued_def)
  have c5: "\<forall>i<length (dom b).
          (page_after (checkAll ?cp) b ! i \<noteq> dom b ! i) =
          (i \<in> set (take ?n ?hs) \<and> \<not> checked (dom b ! i))"
    unfolding c2 by (simp add: checked_at_changes)
  have u1: "result (uncheckAll ?cp) b = (if ?m = length ?hs then Inr () else Inl TimeoutError)"
    and u2: "page_after (uncheckAll ?cp) b = checked_at False (take ?m ?hs) (dom b)"
    using u ud by (simp_all add: result_def page_after_def)
  have u4: "result (await (uncheckAll ?cp) (\<lambda>_. getCheckboxStates ?cp)) b =
         (if ?m = length ?hs then Inr (replicate (length ?hs) False) else Inl TimeoutError)"
    using u ur by (simp add: result_def await_def)
  have u3: "issued (uncheckAll ?cp) b = All (checkboxes ?cp) #
       concat (map (\<lambda>k. IsChecked (Nth (checkboxes ?cp) k) #
                 (if checked (dom b ! (?hs ! k))
                  then [Uncheck (Nth (checkboxes ?cp) k) None]
                  else []))
               (take (Suc ?m) [0..<length ?hs]))"
    using u uc by (simp add: issued_def)
  have u5: "\<forall>i<length (dom b).
          (page_after (uncheckAll ?cp) b ! i \<noteq> dom b ! i) =
          (i \<in> set (take ?m ?hs) \<and> checked (dom b ! i))"
    unfolding u2 by (simp add: checked_at_changes)
  from n c1 c2 c5 c3 c4 m u1 u2 u5 u3 u4 show ?thesis
    unfolding Let_def by blast
qed

text \<open>
  The page with states false, true: \<^verbatim>\<open>checkAll\<close> checks the first checkbox only,
  \<^verbatim>\<open>uncheckAll\<close> unchecks the second only. The page with two unchecked checkboxes of
  which the second is hidden: \<^verbatim>\<open>checkAll\<close> checks the first and times out on the
  second, and \<^verbatim>\<open>uncheckAll\<close>, which has nothing to uncheck, returns.
\<close>

theorem checkAll_uncheckAll_set_all_witness:
  \<open>container_boxes (dom (opened (checkboxes_page [False, True]))) = [1, 2] \<and>
   actionable (dom (opened (checkboxes_page [False, True])) ! 1) \<and>
   actionable (dom (opened (checkboxes_page [False, True])) ! 2) \<and>
   container_boxes (dom (opened (hidden_box_page False))) = [1, 2] \<and>
   checked (dom (opened (hidden_box_page False)) ! 2) = False \<and>
   actionable (dom (opened (hidden_box_page False)) ! 2) = False \<and>
   result (checkAll (CheckboxesPage_constructor (Page 0)))
     (opened (checkboxes_page [False, True])) = Inr () \<and>
   page_after (checkAll (CheckboxesPage_constructor (Page 0)))
     (opened (checkboxes_page [False, True])) = checkboxes_page [True, True] \<and>
   result (await (checkAll (CheckboxesPage_constructor (Page 0)))
             (\<lambda>_. getCheckboxStates (CheckboxesPage_constructor (Page 0))))
     (opened (checkboxes_page [False, True])) = Inr [True, True] \<and>
   issued (checkAll (CheckboxesPage_constructor (Page 0)))
     (opened (checkboxes_page [False, True])) =
     [All (SubLocator (PageLocator ''#checkboxes'') ''input[type="checkbox"]''),
      IsChecked (Nth (SubLocator (PageLocator ''#checkboxes'') ''input[type="checkbox"]'') 0),
      Check (Nth (SubLocator (PageLocator ''#checkboxes'') ''input[type="checkbox"]'') 0)
        (Some 10000),
      IsChecked (Nth (SubLocator (PageLocator ''#checkboxes'') ''input[type="checkbox"]'') 1)] \<and>
   result (uncheckAll (CheckboxesPage_constructor (Page 0)))
     (opened (checkboxes_page [False, True])) = Inr () \<and>
   page_after (uncheckAll (CheckboxesPage_constructor (Page 0)))
     (opened (checkboxes_page [False, True])) = checkboxes_page [False, False] \<and>
   result (await (uncheckAll (CheckboxesPage_constructor (Page 0)))
             (\<lambda>_. getCheckboxStates (CheckboxesPage_constructor (Page 0))))
     (opened (checkboxes_page [False, True])) = Inr [False, False] \<and>
   issued (uncheckAll (CheckboxesPage_constructor (Page 0)))
     (opened (checkboxes_page [False, True])) =
     [All (SubLocator (PageLocator ''#checkboxes'') ''input[type="checkbox"]''),
      IsChecked (Nth (SubLocator (PageLocator ''#checkboxes'') ''input[type="checkbox"]'') 0),
      IsChecked (Nth (SubLocator (PageLocator ''#checkboxes'') ''input[type="checkbox"]'') 1),
      Uncheck (Nth (SubLocator (PageLocator ''#checkboxes'') ''input[type="checkbox"]'') 1)
        None] \<and>
   result (checkAll (CheckboxesPage_constructor (Page 0)))
     (opened (hidden_box_page False)) = Inl TimeoutError \<and>
   page_after (checkAll (CheckboxesPage_constructor (Page 0)))
     (opened (hidden_box_page False)) =
     (hidden_box_page False)[1 := (hidden_box_page False ! 1)\<lparr>checked := True\<rparr>] \<and>
   issued (checkAll (CheckboxesPage_constructor (Page 0)))
     (opened (hidden_box_page False)) =
     [All (SubLocator (PageLocator ''#checkboxes'') ''input[type="checkbox"]''),
      IsChecked (Nth (SubLocator (PageLocator ''#checkboxes'') ''input[type="checkbox"]'') 0),
      Check (Nth (SubLocator (PageLocator ''#checkboxes'') ''input[type="checkbox"]'') 0)
        (Some 10000),
      IsChecked (Nth (SubLocator (PageLocator ''#checkboxes'') ''input[type="checkbox"]'') 1),
      Check (Nth (SubLocator (PageLocator ''#checkboxes'') ''input[type="checkbox"]'') 1)
        (Some 10000)] \<and>
   result (await (checkAll (CheckboxesPage_constructor (Page 0)))
             (\<lambda>_. getCheckboxStates (CheckboxesPage_constructor (Page 0))))
     (opened (hidden_box_page False)) = Inl TimeoutError \<and>
   result (await (uncheckAll (CheckboxesPage_constructor (Page 0)))
             (\<lambda>_. getCheckboxStates (CheckboxesPage_constructor (Page 0))))
     (opened (hidden_box_page False)) = Inr [False, False] \<and>
   issued (uncheckAll (CheckboxesPage_constructor (Page 0)))
     (opened (hidden_box_page False)) =
     [All (SubLocator (PageLocator ''#checkboxes'') ''input[type="checkbox"]''),
      IsChecked (Nth (SubLocator (PageLocator ''#checkboxes'') ''input[type="checkbox"]'') 0),
      IsChecked (Nth (SubLocator (PageLocator ''#checkboxes'') ''input[type="checkbox"]'') 1)]\<close>
proof -
  let ?cp = "CheckboxesPage_constructor (Page 0)"
  let ?b = "opened (checkboxes_page [False, True])"
  let ?F = "opened (hidden_box_page False)"
  have d: "dom ?b = checkboxes_page [False, True]" "dom ?F = hidden_box_page False"
    by (simp_all add: opened_def)
  have act: "container_boxes (dom ?b) = [1, 2] \<and>
      actionable (dom ?b ! 1) \<and> actionable (dom ?b ! 2) \<and>
      container_boxes (dom ?F) = [1, 2] \<and>
      checked (dom ?F ! 2) = False \<and> actionable (dom ?F ! 2) = False"
    unfolding d container_boxes_example container_boxes_hidden
    by (simp add: checkboxes_page_fields hidden_box_page_fields)
  from checkAll_uncheckAll_set_all [where b = ?b and pg = "Page 0"]
  have one: \<open>result (checkAll ?cp) ?b = Inr () \<and>
   page_after (checkAll ?cp) ?b = checkboxes_page [True, True] \<and>
   result (await (checkAll ?cp) (\<lambda>_. getCheckboxStates ?cp)) ?b = Inr [True, True] \<and>
   issued (checkAll ?cp) ?b =
     [All (SubLocator (PageLocator ''#checkboxes'') ''input[type="checkbox"]''),
      IsChecked (Nth (SubLocator (PageLocator ''#checkboxes'') ''input[type="checkbox"]'') 0),
      Check (Nth (SubLocator (PageLocator ''#checkboxes'') ''input[type="checkbox"]'') 0)
        (Some 10000),
      IsChecked (Nth (SubLocator (PageLocator ''#checkboxes'') ''input[type="checkbox"]'') 1)] \<and>
   result (uncheckAll ?cp) ?b = Inr () \<and>
   page_after (uncheckAll ?cp) ?b = checkboxes_page [False, False] \<and>
   result (await (uncheckAll ?cp) (\<lambda>_. getCheckboxStates ?cp)) ?b = Inr [False, False] \<and>
   issued (uncheckAll ?cp) ?b =
     [All (SubLocator (PageLocator ''#checkboxes'') ''input[type="checkbox"]''),
      IsChecked (Nth (SubLocator (PageLocator ''#checkboxes'') ''input[type="checkbox"]'') 0),
      IsChecked (Nth (SubLocator (PageLocator ''#checkboxes'') ''input[type="checkbox"]'') 1),
      Uncheck (Nth (SubLocator (PageLocator ''#checkboxes'') ''input[type="checkbox"]'') 1)
        None]\<close>
    unfolding Let_def d container_boxes_example checkboxes_constructor
    by (simp add: checkboxes_page_fields checked_at_example [simplified] upt_two)
  from checkAll_uncheckAll_set_all [where b = ?F and pg = "Page 0"]
  have two: \<open>result (checkAll ?cp) ?F = Inl TimeoutError \<and>
   page_after (checkAll ?cp) ?F =
     (hidden_box_page False)[1 := (hidden_box_page False ! 1)\<lparr>checked := True\<rparr>] \<and>
   issued (checkAll ?cp) ?F =
     [All (SubLocator (PageLocator ''#checkboxes'') ''input[type="checkbox"]''),
      IsChecked (Nth (SubLocator (PageLocator ''#checkboxes'') ''input[type="checkbox"]'') 0),
      Check (Nth (SubLocator (PageLocator ''#checkboxes'') ''input[type="checkbox"]'') 0)
        (Some 10000),
      IsChecked (Nth (SubLocator (PageLocator ''#checkboxes'') ''input[type="checkbox"]'') 1),
      Check (Nth (SubLocator (PageLocator ''#checkboxes'') ''input[type="checkbox"]'') 1)
        (Some 10000)] \<and>
   result (await (checkAll ?cp) (\<lambda>_. getCheckboxStates ?cp)) ?F = Inl TimeoutError \<and>
   result (await (uncheckAll ?cp) (\<lambda>_. getCheckboxStates ?cp)) ?F = Inr [False, False] \<and>
   issued (uncheckAll ?cp) ?F =
     [All (SubLocator (PageLocator ''#checkboxes'') ''input[type="checkbox"]''),
      IsChecked (Nth (SubLocator (PageLocator ''#checkboxes'') ''input[type="checkbox"]'') 0),
      IsChecked (Nth (SubLocator (PageLocator ''#checkboxes'') ''input[type="checkbox"]'') 1)]\<close>
    unfolding Let_def d container_boxes_hidden checkboxes_constructor
    by (simp add: hidden_box_page_fields checked_at_hidden [simplified] upt_two)
  from act one two show ?thesis
    by blast
qed
section \<open>CheckboxesPage: toggleCheckbox\<close>

lemma toggleCheckbox_unfold:
  "toggleCheckbox this i =
     await (isChecked (Loc (nth_checkbox i)) \<lparr>timeout = None\<rparr>) (\<lambda>isCurrentlyChecked.
       if isCurrentlyChecked then uncheck (Loc (nth_checkbox i))
       else check (Loc (nth_checkbox i)) \<lparr>timeout = None\<rparr>)"
  by (simp add: toggleCheckbox_def Let_def nth_checkbox_def isChecked_def uncheck_def check_def
      priv_getLocator_def cong: if_cong)

lemma toggle_one:
  assumes r: "resolve (dom b) (nth_checkbox i) = Some [h]"
  shows "toggleCheckbox this i b =
     (if actionable (dom b ! h) then Inr () else Inl TimeoutError,
      b\<lparr>dom := (if actionable (dom b ! h)
                  then (dom b)[h := (dom b ! h)\<lparr>checked := \<not> checked (dom b ! h)\<rparr>]
                  else dom b),
        calls := calls b @
          [WaitFor (nth_checkbox i) Attached (Some 10000), IsChecked (nth_checkbox i),
           if checked (dom b ! h) then Uncheck (nth_checkbox i) None
           else Check (nth_checkbox i) (Some 10000)]\<rparr>)"
proof -
  let ?l = "nth_checkbox i"
  from r have el: "checkable (dom b ! h)" "type_attr (dom b ! h) = ''checkbox''"
    using nth_checkbox_element [of "dom b" i "[h]" h] by simp_all
  define b1 where "b1 = b\<lparr>calls := calls b @ [WaitFor ?l Attached (Some 10000)]\<rparr>"
  have d1: "dom b1 = dom b" by (simp add: b1_def)
  have w: "locator_waitFor ?l Attached (Some 10000) b = (Inr (), b1)"
    by (simp add: locator_waitFor_one [OF r] wait_holds_def b1_def)
  have r1: "resolve (dom b1) ?l = Some [h]" using r by (simp add: d1)
  define b2 where "b2 = b1\<lparr>calls := calls b1 @ [IsChecked ?l]\<rparr>"
  have d2: "dom b2 = dom b" by (simp add: b2_def d1)
  have c: "locator_isChecked ?l b1 = (Inr (checked (dom b ! h)), b2)"
    using el by (simp add: locator_isChecked_one [OF r1] d1 b2_def)
  have i: "isChecked (Loc ?l) \<lparr>timeout = None\<rparr> b = (Inr (checked (dom b ! h)), b2)"
    using w c by (simp add: isChecked_def Let_def priv_getLocator_def default_to_def await_def)
  have r2: "resolve (dom b2) ?l = Some [h]" using r by (simp add: d2)
  have t: "toggleCheckbox this i b =
      (if checked (dom b ! h) then locator_uncheck ?l None b2
       else locator_check ?l (Some 10000) b2)"
    using i
    by (simp add: toggleCheckbox_unfold await_def uncheck_def check_def Let_def
        priv_getLocator_def default_to_def)
  show ?thesis
  proof (cases "checked (dom b ! h)")
    case True
    with t el show ?thesis
      by (simp add: locator_uncheck_one [OF r2] d2) (simp add: b2_def b1_def)
  next
    case False
    with t el show ?thesis
      by (simp add: locator_check_one [OF r2] d2) (simp add: b2_def b1_def)
  qed
qed

lemma toggle_not_one:
  assumes "\<And>h. resolve (dom b) (nth_checkbox i) \<noteq> Some [h]"
  shows "\<exists>e. toggleCheckbox this i b =
     (Inl e, b\<lparr>calls := calls b @ [WaitFor (nth_checkbox i) Attached (Some 10000)]\<rparr>)"
proof -
  let ?l = "nth_checkbox i"
  obtain hs where hs: "resolve (dom b) ?l = Some hs"
    by (simp add: resolve_nth_checkbox)
  with assms have "hs = [] \<or> (\<exists>x y ys. hs = x # y # ys)"
    by (cases hs rule: list.exhaust [case_names Nil Cons]) (auto simp: neq_Nil_conv)
  with hs have "\<exists>e. locator_waitFor ?l Attached (Some 10000) b =
      (Inl e, b\<lparr>calls := calls b @ [WaitFor ?l Attached (Some 10000)]\<rparr>)"
    by (auto simp: locator_waitFor_def await_def invoke_def wait_holds_def)
  then show ?thesis
    by (auto simp: toggleCheckbox_unfold isChecked_def Let_def priv_getLocator_def
        default_to_def await_def)
qed

lemma flip_twice:
  assumes "h < length d"
  shows "(d[h := (d ! h)\<lparr>checked := \<not> checked (d ! h)\<rparr>])
           [h := ((d[h := (d ! h)\<lparr>checked := \<not> checked (d ! h)\<rparr>]) ! h)
                   \<lparr>checked := \<not> checked ((d[h := (d ! h)\<lparr>checked := \<not> checked (d ! h)\<rparr>]) ! h)\<rparr>] = d"
  using assms by (simp add: list_update_same_conv)

lemma toggle_twice_one:
  assumes r: "resolve (dom b) (nth_checkbox i) = Some [h]" and a: "actionable (dom b ! h)"
  shows "result (await (toggleCheckbox this i) (\<lambda>_. toggleCheckbox this i)) b = Inr ()"
    and "page_after (await (toggleCheckbox this i) (\<lambda>_. toggleCheckbox this i)) b = dom b"
proof -
  from r have h: "h < length (dom b)"
    using nth_checkbox_element [of "dom b" i "[h]" h] by simp
  let ?d1 = "(dom b)[h := (dom b ! h)\<lparr>checked := \<not> checked (dom b ! h)\<rparr>]"
  obtain b1 where t1: "toggleCheckbox this i b = (Inr (), b1)" and d1: "dom b1 = ?d1"
    using toggle_one [OF r, of this] a by simp
  have r1: "resolve (dom b1) (nth_checkbox i) = Some [h]"
    using r by (simp add: d1 resolve_checked)
  have a1: "actionable (dom b1 ! h)"
    using a h by (simp add: d1 actionable_def)
  obtain b2 where t2: "toggleCheckbox this i b1 = (Inr (), b2)"
    and d2: "dom b2 = (dom b1)[h := (dom b1 ! h)\<lparr>checked := \<not> checked (dom b1 ! h)\<rparr>]"
    using toggle_one [OF r1, of this] a1 by simp
  have "dom b2 = dom b"
    unfolding d2 d1 using h by (rule flip_twice)
  with t1 t2
  show "result (await (toggleCheckbox this i) (\<lambda>_. toggleCheckbox this i)) b = Inr ()"
    and "page_after (await (toggleCheckbox this i) (\<lambda>_. toggleCheckbox this i)) b = dom b"
    by (simp_all add: result_def page_after_def await_def)
qed

lemma toggle_fails_keeps_page:
  assumes "toggleCheckbox this i b = (Inl e, b')"
  shows "dom b' = dom b"
proof (cases "\<exists>h. resolve (dom b) (nth_checkbox i) = Some [h]")
  case True
  then obtain h where r: "resolve (dom b) (nth_checkbox i) = Some [h]" by blast
  from toggle_one [OF r, of this] assms show ?thesis
    by (auto split: if_splits)
next
  case False
  then have "\<And>h. resolve (dom b) (nth_checkbox i) \<noteq> Some [h]" by blast
  from toggle_not_one [OF this, of this] assms show ?thesis
    by auto
qed

lemma toggle_succeeds:
  assumes "toggleCheckbox this i b = (Inr (), b')"
  shows "\<exists>h. resolve (dom b) (nth_checkbox i) = Some [h] \<and> actionable (dom b ! h)"
proof (cases "\<exists>h. resolve (dom b) (nth_checkbox i) = Some [h]")
  case True
  then obtain h where r: "resolve (dom b) (nth_checkbox i) = Some [h]" by blast
  from toggle_one [OF r, of this] assms have "actionable (dom b ! h)"
    by (auto split: if_splits)
  with r show ?thesis by blast
next
  case False
  then have "\<And>h. resolve (dom b) (nth_checkbox i) \<noteq> Some [h]" by blast
  from toggle_not_one [OF this, of this] assms show ?thesis
    by auto
qed

lemma toggle_other:
  "resolve (dom b) (nth_checkbox i) = None \<Longrightarrow>
     toggleCheckbox this i b =
       (Inl SelectorError, b\<lparr>calls := calls b @ [WaitFor (nth_checkbox i) Attached (Some 10000)]\<rparr>)"
  "resolve (dom b) (nth_checkbox i) = Some [] \<Longrightarrow>
     toggleCheckbox this i b =
       (Inl TimeoutError, b\<lparr>calls := calls b @ [WaitFor (nth_checkbox i) Attached (Some 10000)]\<rparr>)"
  "resolve (dom b) (nth_checkbox i) = Some (h # h' # hs) \<Longrightarrow>
     toggleCheckbox this i b =
       (Inl StrictModeViolation,
        b\<lparr>calls := calls b @ [WaitFor (nth_checkbox i) Attached (Some 10000)]\<rparr>)"
  by (simp_all add: toggleCheckbox_unfold isChecked_def Let_def priv_getLocator_def
      default_to_def await_def locator_waitFor_def invoke_def wait_holds_def)

lemma toggle_cases:
  "toggleCheckbox this i b =
     (case resolve (dom b) (nth_checkbox i) of
        None \<Rightarrow>
          (Inl SelectorError,
           b\<lparr>calls := calls b @ [WaitFor (nth_checkbox i) Attached (Some 10000)]\<rparr>)
      | Some [] \<Rightarrow>
          (Inl TimeoutError,
           b\<lparr>calls := calls b @ [WaitFor (nth_checkbox i) Attached (Some 10000)]\<rparr>)
      | Some [h] \<Rightarrow>
          (if actionable (dom b ! h) then Inr () else Inl TimeoutError,
           b\<lparr>dom := (if actionable (dom b ! h)
                       then (dom b)[h := (dom b ! h)\<lparr>checked := \<not> checked (dom b ! h)\<rparr>]
                       else dom b),
             calls := calls b @
               [WaitFor (nth_checkbox i) Attached (Some 10000), IsChecked (nth_checkbox i),
                if checked (dom b ! h) then Uncheck (nth_checkbox i) None
                else Check (nth_checkbox i) (Some 10000)]\<rparr>)
      | Some (h # h' # hs) \<Rightarrow>
          (Inl StrictModeViolation,
           b\<lparr>calls := calls b @ [WaitFor (nth_checkbox i) Attached (Some 10000)]\<rparr>))"
proof (cases "resolve (dom b) (nth_checkbox i)")
  case None
  then show ?thesis
    by (simp add: toggle_other(1))
next
  case (Some hs)
  show ?thesis
  proof (cases hs)
    case Nil
    with Some show ?thesis
      by (simp add: toggle_other(2))
  next
    case (Cons h rest)
    show ?thesis
    proof (cases rest)
      case Nil
      with Some Cons have r: "resolve (dom b) (nth_checkbox i) = Some [h]"
        by simp
      show ?thesis
        unfolding toggle_one [OF r, of this] r by simp
    next
      case rest: (Cons h' more)
      with Some Cons have r: "resolve (dom b) (nth_checkbox i) = Some (h # h' # more)"
        by simp
      show ?thesis
        unfolding toggle_other(3) [OF r, of this] r by simp
    qed
  qed
qed

text \<open>
  Claim C5. For every index and every page, two calls of \<^verbatim>\<open>toggleCheckbox(i)\<close> in
  succession leave the page as it was, and so the checkbox in its original state. What
  one call does is fixed by what its selector \<^verbatim>\<open>input[type="checkbox"]:nth-of-type(i)\<close>
  finds on the page. With one element, the call waits for it, reads its state and then
  calls \<^verbatim>\<open>uncheck\<close> when it was checked and \<^verbatim>\<open>check\<close> when it was not; it returns
  exactly when the element is visible and enabled, having set the opposite state on that
  element alone, and otherwise the write times out and the page is as it was. With no
  element the wait times out, with several it is refused, and nothing is read or
  written. So a call returns if and only if the selector finds one element that is visible
  and enabled; and when the first call returns, so does the second.
\<close>

theorem toggleCheckbox_twice_restores:
  "page_after (await (toggleCheckbox this i) (\<lambda>_. toggleCheckbox this i)) b = dom b \<and>
   (result (toggleCheckbox this i) b = Inr () \<longrightarrow>
      result (await (toggleCheckbox this i) (\<lambda>_. toggleCheckbox this i)) b = Inr () \<and>
      (\<exists>h<length (dom b).
         resolve (dom b) (nth_checkbox i) = Some [h] \<and>
         page_after (toggleCheckbox this i) b =
           (dom b)[h := (dom b ! h)\<lparr>checked := \<not> checked (dom b ! h)\<rparr>] \<and>
         issued (toggleCheckbox this i) b =
           [WaitFor (nth_checkbox i) Attached (Some 10000),
            IsChecked (nth_checkbox i),
            if checked (dom b ! h) then Uncheck (nth_checkbox i) None
            else Check (nth_checkbox i) (Some 10000)])) \<and>
   toggleCheckbox this i b =
     (case resolve (dom b) (nth_checkbox i) of
        None \<Rightarrow>
          (Inl SelectorError,
           b\<lparr>calls := calls b @ [WaitFor (nth_checkbox i) Attached (Some 10000)]\<rparr>)
      | Some [] \<Rightarrow>
          (Inl TimeoutError,
           b\<lparr>calls := calls b @ [WaitFor (nth_checkbox i) Attached (Some 10000)]\<rparr>)
      | Some [h] \<Rightarrow>
          (if actionable (dom b ! h) then Inr () else Inl TimeoutError,
           b\<lparr>dom := (if actionable (dom b ! h)
                       then (dom b)[h := (dom b ! h)\<lparr>checked := \<not> checked (dom b ! h)\<rparr>]
                       else dom b),
             calls := calls b @
               [WaitFor (nth_checkbox i) Attached (Some 10000), IsChecked (nth_checkbox i),
                if checked (dom b ! h) then Uncheck (nth_checkbox i) None
                else Check (nth_checkbox i) (Some 10000)]\<rparr>)
      | Some (h # h' # hs) \<Rightarrow>
          (Inl StrictModeViolation,
           b\<lparr>calls := calls b @ [WaitFor (nth_checkbox i) Attached (Some 10000)]\<rparr>)) \<and>
   resolve (dom b) (nth_checkbox i) =
     Some (filter (\<lambda>h. tag (dom b ! h) = ''input'' \<and> type_attr (dom b ! h) = ''checkbox'' \<and>
                        int (nth_of_type (dom b) h) = i) [0..<length (dom b)]) \<and>
   (result (toggleCheckbox this i) b = Inr ()) =
     (\<exists>h. resolve (dom b) (nth_checkbox i) = Some [h] \<and> actionable (dom b ! h))"
proof -
  obtain r b' where t: "toggleCheckbox this i b = (r, b')"
    by (cases "toggleCheckbox this i b")
  have double: "page_after (await (toggleCheckbox this i) (\<lambda>_. toggleCheckbox this i)) b = dom b \<and>
   (result (toggleCheckbox this i) b = Inr () \<longrightarrow>
      result (await (toggleCheckbox this i) (\<lambda>_. toggleCheckbox this i)) b = Inr () \<and>
      (\<exists>h<length (dom b).
         resolve (dom b) (nth_checkbox i) = Some [h] \<and>
         page_after (toggleCheckbox this i) b =
           (dom b)[h := (dom b ! h)\<lparr>checked := \<not> checked (dom b ! h)\<rparr>] \<and>
         issued (toggleCheckbox this i) b =
           [WaitFor (nth_checkbox i) Attached (Some 10000),
            IsChecked (nth_checkbox i),
            if checked (dom b ! h) then Uncheck (nth_checkbox i) None
            else Check (nth_checkbox i) (Some 10000)]))"
  proof (cases r)
    case (Inl e)
    with t toggle_fails_keeps_page [of this i b e b'] show ?thesis
      by (simp add: page_after_def result_def await_def)
  next
    case (Inr u)
    with t toggle_succeeds [of this i b b']
    obtain h where r: "resolve (dom b) (nth_checkbox i) = Some [h]"
      and a: "actionable (dom b ! h)"
      by auto
    from r have h: "h < length (dom b)"
      using nth_checkbox_element [of "dom b" i "[h]" h] by simp
    from toggle_one [OF r, of this] a
    have one: "page_after (toggleCheckbox this i) b =
           (dom b)[h := (dom b ! h)\<lparr>checked := \<not> checked (dom b ! h)\<rparr>]"
      "issued (toggleCheckbox this i) b =
           [WaitFor (nth_checkbox i) Attached (Some 10000),
            IsChecked (nth_checkbox i),
            if checked (dom b ! h) then Uncheck (nth_checkbox i) None
            else Check (nth_checkbox i) (Some 10000)]"
      by (simp_all add: page_after_def issued_def)
    from toggle_twice_one [OF r a, of this] r h one show ?thesis
      by blast
  qed
  have returns: "(result (toggleCheckbox this i) b = Inr ()) =
     (\<exists>h. resolve (dom b) (nth_checkbox i) = Some [h] \<and> actionable (dom b ! h))"
  proof
    assume "result (toggleCheckbox this i) b = Inr ()"
    with t have "toggleCheckbox this i b = (Inr (), b')"
      by (simp add: result_def)
    then show "\<exists>h. resolve (dom b) (nth_checkbox i) = Some [h] \<and> actionable (dom b ! h)"
      by (rule toggle_succeeds)
  next
    assume "\<exists>h. resolve (dom b) (nth_checkbox i) = Some [h] \<and> actionable (dom b ! h)"
    then obtain h where r: "resolve (dom b) (nth_checkbox i) = Some [h]"
      and a: "actionable (dom b ! h)"
      by blast
    from toggle_one [OF r, of this] a show "result (toggleCheckbox this i) b = Inr ()"
      by (simp add: result_def)
  qed
  from double toggle_cases [of this i b] resolve_nth_checkbox [of "dom b" i] returns
  show ?thesis
    by blast
qed

lemma resolve_second_checkbox:
  "resolve (checkboxes_page [False, True]) (nth_checkbox 2) = Some [2]"
  by (simp add: resolve_nth_checkbox checkboxes_page_def elem_def)
     (simp add: nth_of_type_def)

lemma resolve_first_checkbox:
  "resolve (checkboxes_page [False, True]) (nth_checkbox 1) = Some [1]"
  by (simp add: resolve_nth_checkbox checkboxes_page_def elem_def)
     (simp add: nth_of_type_def)

lemma resolve_third_checkbox:
  "resolve (checkboxes_page [False, True]) (nth_checkbox 3) = Some []"
  by (simp add: resolve_nth_checkbox checkboxes_page_def elem_def)
     (simp add: nth_of_type_def)

lemma resolve_outside_first:
  "resolve outside_boxes_page (nth_checkbox 1) = Some [1, 4]"
  by (simp add: resolve_nth_checkbox outside_boxes_page_def elem_def)
     (simp add: nth_of_type_def)

lemma resolve_hidden_second:
  "resolve (hidden_box_page c) (nth_checkbox 2) = Some [2]"
  by (simp add: resolve_nth_checkbox hidden_box_page_def elem_def)
     (simp add: nth_of_type_def)

text \<open>
  On the page with states false, true, toggling the second checkbox gives false, false,
  with a call of \<^verbatim>\<open>uncheck\<close>, and toggling it again gives false, true; toggling the
  first one calls \<^verbatim>\<open>check\<close>. There is no third checkbox, and the wait for it times out.
  On the page with checkboxes in two places, the first of each place is found, and the
  call is refused. On the page whose second checkbox is hidden, the state is read and
  the write times out.
\<close>

theorem toggleCheckbox_twice_restores_witness:
  "result (toggleCheckbox (CheckboxesPage_constructor (Page 0)) 2)
     (opened (checkboxes_page [False, True])) = Inr () \<and>
   page_after (toggleCheckbox (CheckboxesPage_constructor (Page 0)) 2)
     (opened (checkboxes_page [False, True])) = checkboxes_page [False, False] \<and>
   issued (toggleCheckbox (CheckboxesPage_constructor (Page 0)) 2)
     (opened (checkboxes_page [False, True])) =
     [WaitFor (nth_checkbox 2) Attached (Some 10000), IsChecked (nth_checkbox 2),
      Uncheck (nth_checkbox 2) None] \<and>
   result (await (toggleCheckbox (CheckboxesPage_constructor (Page 0)) 2)
             (\<lambda>_. toggleCheckbox (CheckboxesPage_constructor (Page 0)) 2))
     (opened (checkboxes_page [False, True])) = Inr () \<and>
   page_after (await (toggleCheckbox (CheckboxesPage_constructor (Page 0)) 2)
             (\<lambda>_. toggleCheckbox (CheckboxesPage_constructor (Page 0)) 2))
     (opened (checkboxes_page [False, True])) = checkboxes_page [False, True] \<and>
   result (toggleCheckbox (CheckboxesPage_constructor (Page 0)) 1)
     (opened (checkboxes_page [False, True])) = Inr () \<and>
   page_after (toggleCheckbox (CheckboxesPage_constructor (Page 0)) 1)
     (opened (checkboxes_page [False, True])) = checkboxes_page [True, True] \<and>
   issued (toggleCheckbox (CheckboxesPage_constructor (Page 0)) 1)
     (opened (checkboxes_page [False, True])) =
     [WaitFor (nth_checkbox 1) Attached (Some 10000), IsChecked (nth_checkbox 1),
      Check (nth_checkbox 1) (Some 10000)] \<and>
   toggleCheckbox (CheckboxesPage_constructor (Page 0)) 3 (opened (checkboxes_page [False, True])) =
     (Inl TimeoutError,
      \<lparr>dom = checkboxes_page [False, True],
       calls = [WaitFor (nth_checkbox 3) Attached (Some 10000)]\<rparr>) \<and>
   toggleCheckbox (CheckboxesPage_constructor (Page 0)) 1 (opened outside_boxes_page) =
     (Inl StrictModeViolation,
      \<lparr>dom = outside_boxes_page, calls = [WaitFor (nth_checkbox 1) Attached (Some 10000)]\<rparr>) \<and>
   toggleCheckbox (CheckboxesPage_constructor (Page 0)) 2 (opened (hidden_box_page True)) =
     (Inl TimeoutError,
      \<lparr>dom = hidden_box_page True,
       calls = [WaitFor (nth_checkbox 2) Attached (Some 10000), IsChecked (nth_checkbox 2),
                Uncheck (nth_checkbox 2) None]\<rparr>)"
proof -
  let ?cp = "CheckboxesPage_constructor (Page 0)"
  let ?b = "opened (checkboxes_page [False, True])"
  have r: "resolve (dom ?b) (nth_checkbox 2) = Some [2]"
    and r1: "resolve (dom ?b) (nth_checkbox 1) = Some [1]"
    and r3: "resolve (dom ?b) (nth_checkbox 3) = Some []"
    and ro: "resolve (dom (opened outside_boxes_page)) (nth_checkbox 1) = Some [1, 4]"
    and rh: "resolve (dom (opened (hidden_box_page True))) (nth_checkbox 2) = Some [2]"
    by (simp_all add: opened_def resolve_second_checkbox resolve_first_checkbox
        resolve_third_checkbox resolve_outside_first resolve_hidden_second)
  have a: "actionable (dom ?b ! 2)" "actionable (dom ?b ! 1)" "checked (dom ?b ! 2)"
    "\<not> checked (dom ?b ! 1)"
    "\<not> actionable (dom (opened (hidden_box_page True)) ! 2)"
    "checked (dom (opened (hidden_box_page True)) ! 2)"
    by (simp_all add: opened_def checkboxes_page_def hidden_box_page_def elem_def actionable_def)
  note t2 = toggleCheckbox_twice_restores [of ?cp 2 ?b]
  note t1 = toggleCheckbox_twice_restores [of ?cp 1 ?b]
  note t3 = toggleCheckbox_twice_restores [of ?cp 3 ?b]
  note to = toggleCheckbox_twice_restores [of ?cp 1 "opened outside_boxes_page"]
  note th = toggleCheckbox_twice_restores [of ?cp 2 "opened (hidden_box_page True)"]
  from t2 [THEN conjunct2, THEN conjunct2, THEN conjunct1] r a
  have e2: "toggleCheckbox ?cp 2 ?b =
     (Inr (), ?b\<lparr>dom := (dom ?b)[2 := (dom ?b ! 2)\<lparr>checked := False\<rparr>],
                calls := calls ?b @ [WaitFor (nth_checkbox 2) Attached (Some 10000),
                  IsChecked (nth_checkbox 2), Uncheck (nth_checkbox 2) None]\<rparr>)"
    by simp
  from t1 [THEN conjunct2, THEN conjunct2, THEN conjunct1] r1 a
  have e1: "toggleCheckbox ?cp 1 ?b =
     (Inr (), ?b\<lparr>dom := (dom ?b)[1 := (dom ?b ! 1)\<lparr>checked := True\<rparr>],
                calls := calls ?b @ [WaitFor (nth_checkbox 1) Attached (Some 10000),
                  IsChecked (nth_checkbox 1), Check (nth_checkbox 1) (Some 10000)]\<rparr>)"
    by simp
  from t3 [THEN conjunct2, THEN conjunct2, THEN conjunct1] r3
  have e3: "toggleCheckbox ?cp 3 ?b =
     (Inl TimeoutError, ?b\<lparr>calls := calls ?b @ [WaitFor (nth_checkbox 3) Attached (Some 10000)]\<rparr>)"
    by simp
  from to [THEN conjunct2, THEN conjunct2, THEN conjunct1] ro
  have eo: "toggleCheckbox ?cp 1 (opened outside_boxes_page) =
     (Inl StrictModeViolation,
      (opened outside_boxes_page)\<lparr>calls := calls (opened outside_boxes_page) @
         [WaitFor (nth_checkbox 1) Attached (Some 10000)]\<rparr>)"
    by simp
  from th [THEN conjunct2, THEN conjunct2, THEN conjunct1] rh a
  have eh: "toggleCheckbox ?cp 2 (opened (hidden_box_page True)) =
     (Inl TimeoutError,
      (opened (hidden_box_page True))\<lparr>calls := calls (opened (hidden_box_page True)) @
         [WaitFor (nth_checkbox 2) Attached (Some 10000), IsChecked (nth_checkbox 2),
          Uncheck (nth_checkbox 2) None]\<rparr>)"
    by simp
  from e2 have ok: "result (toggleCheckbox ?cp 2) ?b = Inr ()"
    by (simp add: result_def)
  from t2 [THEN conjunct1] have restored:
    "page_after (await (toggleCheckbox ?cp 2) (\<lambda>_. toggleCheckbox ?cp 2)) ?b = dom ?b" .
  from t2 [THEN conjunct2, THEN conjunct1] ok
  have two: "result (await (toggleCheckbox ?cp 2) (\<lambda>_. toggleCheckbox ?cp 2)) ?b = Inr ()"
    by blast
  have p2: "page_after (toggleCheckbox ?cp 2) ?b = checkboxes_page [False, False]"
    unfolding page_after_def e2 by (simp add: opened_def checkboxes_page_def elem_def)
  have p1: "page_after (toggleCheckbox ?cp 1) ?b = checkboxes_page [True, True]"
    unfolding page_after_def e1 by (simp add: opened_def checkboxes_page_def elem_def)
  have i2: "issued (toggleCheckbox ?cp 2) ?b =
     [WaitFor (nth_checkbox 2) Attached (Some 10000), IsChecked (nth_checkbox 2),
      Uncheck (nth_checkbox 2) None]"
    unfolding issued_def e2 by (simp add: opened_def)
  have i1: "issued (toggleCheckbox ?cp 1) ?b =
     [WaitFor (nth_checkbox 1) Attached (Some 10000), IsChecked (nth_checkbox 1),
      Check (nth_checkbox 1) (Some 10000)]"
    unfolding issued_def e1 by (simp add: opened_def)
  from e1 have ok1: "result (toggleCheckbox ?cp 1) ?b = Inr ()"
    by (simp add: result_def)
  from e3 have x3: "toggleCheckbox ?cp 3 ?b =
     (Inl TimeoutError,
      \<lparr>dom = checkboxes_page [False, True],
       calls = [WaitFor (nth_checkbox 3) Attached (Some 10000)]\<rparr>)"
    by (simp add: opened_def)
  from eo have xo: "toggleCheckbox ?cp 1 (opened outside_boxes_page) =
     (Inl StrictModeViolation,
      \<lparr>dom = outside_boxes_page, calls = [WaitFor (nth_checkbox 1) Attached (Some 10000)]\<rparr>)"
    by (simp add: opened_def)
  from eh have xh: "toggleCheckbox ?cp 2 (opened (hidden_box_page True)) =
     (Inl TimeoutError,
      \<lparr>dom = hidden_box_page True,
       calls = [WaitFor (nth_checkbox 2) Attached (Some 10000), IsChecked (nth_checkbox 2),
                Uncheck (nth_checkbox 2) None]\<rparr>)"
    by (simp add: opened_def)
  from restored have back2:
    "page_after (await (toggleCheckbox ?cp 2) (\<lambda>_. toggleCheckbox ?cp 2)) ?b =
       checkboxes_page [False, True]"
    by (simp add: opened_def)
  from ok p2 i2 two back2 ok1 p1 i1 x3 xo xh show ?thesis
    by blast
qed
section \<open>CheckboxesPage: the index-based methods and the enumerating ones\<close>


















section \<open>Properties of the factory\<close>

lemma call_cached_Some:
  "cached g this = Some r \<Longrightarrow> call g (this, h) = (r, this, h)"
  by (cases g) (simp_all add: getLoginPage_def getSecurePage_def getCheckboxesPage_def)

lemma call_cached_None:
  "cached g this = None \<Longrightarrow>
     fst (call g (this, h)) = length h \<and>
     cached g (fst (snd (call g (this, h)))) = Some (length h) \<and>
     length (snd (snd (call g (this, h)))) = Suc (length h)"
  by (cases g) (simp_all add: getLoginPage_def getSecurePage_def getCheckboxesPage_def new_def)

lemma call_stores: "cached g (fst (snd (call g s))) = Some (fst (call g s))"
proof (cases s)
  case (Pair this h)
  show ?thesis
  proof (cases "cached g this")
    case None
    from call_cached_None [OF None, of h] Pair show ?thesis by simp
  next
    case (Some r)
    from call_cached_Some [OF Some, of h] Some Pair show ?thesis by simp
  qed
qed

lemma call_keeps:
  "cached g (fst s) = Some r \<Longrightarrow> cached g (fst (snd (call g' s))) = Some r"
  by (cases s; cases g; cases g')
     (auto simp: getLoginPage_def getSecurePage_def getCheckboxesPage_def new_def
           split: option.splits)

lemma call_heap_prefix: "take (length (snd s)) (snd (snd (call g s))) = snd s"
  by (cases s; cases g)
     (auto simp: getLoginPage_def getSecurePage_def getCheckboxesPage_def new_def
           split: option.splits)

lemma calls_after_keeps:
  "cached g (fst s) = Some r \<Longrightarrow> cached g (fst (calls_after gs s)) = Some r"
proof (induction gs arbitrary: s)
  case Nil
  then show ?case by simp
next
  case (Cons g' gs)
  from Cons.prems have "cached g (fst (snd (call g' s))) = Some r"
    by (rule call_keeps)
  then show ?case using Cons.IH by simp
qed

text \<open>
  Claim C1. For every manager and every getter: the first call, made while the cache
  field is \<^verbatim>\<open>null\<close>, constructs one new object and stores its reference; a call made
  while the field holds a reference returns that reference and changes neither the
  manager nor the heap; and after the getter has been called once, whatever further
  getter calls are made on the manager, the same getter returns the reference it returned
  the first time. No getter call removes or replaces a cached reference or an object of
  the heap.
\<close>

theorem PomManager_cache_identity:
  "fst (call g (calls_after gs (snd (call g s)))) = fst (call g s) \<and>
   (cached g (fst s) = None \<longrightarrow>
      fst (call g s) = length (snd s) \<and>
      length (snd (snd (call g s))) = Suc (length (snd s)) \<and>
      cached g (fst (snd (call g s))) = Some (length (snd s))) \<and>
   (cached g (fst t) = Some r \<longrightarrow>
      call g t = (r, t) \<and> cached g (fst (calls_after gs t)) = Some r) \<and>
   take (length (snd s)) (snd (snd (call g' s))) = snd s"
proof (intro conjI impI)
  let ?s1 = "snd (call g s)"
  have "cached g (fst ?s1) = Some (fst (call g s))"
    by (rule call_stores)
  then have kept: "cached g (fst (calls_after gs ?s1)) = Some (fst (call g s))"
    by (rule calls_after_keeps)
  obtain this h where s2: "calls_after gs ?s1 = (this, h)"
    by (cases "calls_after gs ?s1")
  with kept have "cached g this = Some (fst (call g s))" by simp
  then have "call g (this, h) = (fst (call g s), this, h)"
    by (rule call_cached_Some)
  with s2 show "fst (call g (calls_after gs (snd (call g s)))) = fst (call g s)"
    by simp
next
  assume none: "cached g (fst s) = None"
  from call_cached_None [OF none, of "snd s"]
  show "fst (call g s) = length (snd s)"
    and "length (snd (snd (call g s))) = Suc (length (snd s))"
    and "cached g (fst (snd (call g s))) = Some (length (snd s))"
    by simp_all
next
  assume some: "cached g (fst t) = Some r"
  from call_cached_Some [OF some, of "snd t"] show "call g t = (r, t)"
    by simp
  from some show "cached g (fst (calls_after gs t)) = Some r"
    by (rule calls_after_keeps)
next
  show "take (length (snd s)) (snd (snd (call g' s))) = snd s"
    by (rule call_heap_prefix)
qed

text \<open>
  A fresh manager asked for the login page, then the secure page, then the login page
  again: the third call returns the reference of the first, and the heap holds two objects.
\<close>

theorem PomManager_cache_identity_witness:
  "cached GetLoginPage (fst (PomManager_constructor (Page 0), [])) = None \<and>
   cached GetLoginPage (fst (snd (call GetLoginPage (PomManager_constructor (Page 0), [])))) = Some 0 \<and>
   fst (call GetLoginPage (PomManager_constructor (Page 0), [])) = 0 \<and>
   fst (call GetLoginPage
     (calls_after [GetSecurePage] (snd (call GetLoginPage (PomManager_constructor (Page 0), []))))) = 0 \<and>
   snd (snd (call GetLoginPage
     (calls_after [GetSecurePage] (snd (call GetLoginPage (PomManager_constructor (Page 0), []))))))
     = [ALoginPage (LoginPage_constructor (Page 0)), ASecurePage (SecurePage_constructor (Page 0))]"
  using PomManager_cache_identity
    [of GetLoginPage "[GetSecurePage]" "(PomManager_constructor (Page 0), [])"
        "snd (call GetLoginPage (PomManager_constructor (Page 0), []))" 0 GetLoginPage]
  by (simp add: PomManager_constructor_def getLoginPage_def getSecurePage_def new_def)


end
